theory Spec2Isabelle
  imports Complex_Main "HOL-Library.Sublist"
begin

section \<open>JavaScript values used by the lead generator\<close>

text \<open>
  A string is the list of its UTF-16 code units, each a natural number (below 65536 in
  a string of the program); \<open>js\<close> writes a literal of the source, and \<open>length\<close> is
  the property \<open>.length\<close>. A JavaScript \<open>number\<close> is a real number: arithmetic is
  exact, the rounding of floating point is not modelled.

  \<open>String.prototype.toLowerCase\<close> belongs to the runtime, not to the repository. It is
  Unicode-aware: it may change the length of a string (U+0130 becomes two units), read
  the context of a letter (the final sigma) and lower a letter that is not ASCII to an
  ASCII one (U+212A, the Kelvin sign, becomes \<open>k\<close>). The functions of the program that
  call it take it as their argument \<open>toLowerCase\<close>, a function from strings to
  strings, and the worker takes it from its environment.
\<close>

type_synonym number = real

type_synonym code_unit = nat

type_synonym jstring = "code_unit list"

abbreviation js :: "string \<Rightarrow> jstring" where
  "js s \<equiv> map of_char s"

text \<open>\<open>s.startsWith(k)\<close> and \<open>s.includes(k)\<close>: \<open>k\<close> occurs in \<open>s\<close> as a contiguous block.\<close>

fun startsWith :: "jstring \<Rightarrow> jstring \<Rightarrow> bool" where
  "startsWith s [] = True"
| "startsWith [] (k # ks) = False"
| "startsWith (c # cs) (k # ks) = (c = k \<and> startsWith cs ks)"

fun str_includes :: "jstring \<Rightarrow> jstring \<Rightarrow> bool" where
  "str_includes [] kw = (kw = [])"
| "str_includes (c # cs) kw = (startsWith (c # cs) kw \<or> str_includes cs kw)"

text \<open>\<open>xs.some(p)\<close> of an array.\<close>

fun some :: "('a \<Rightarrow> bool) \<Rightarrow> 'a list \<Rightarrow> bool" where
  "some p [] = False"
| "some p (x # xs) = (if p x then True else some p xs)"

text \<open>
  Truthiness of an optional string, as in \<open>if (job.salary)\<close>: \<open>undefined\<close> and the
  empty string are falsy.
\<close>

fun truthy :: "jstring option \<Rightarrow> bool" where
  "truthy None = False"
| "truthy (Some s) = (s \<noteq> [])"

text \<open>\<open>Math.round\<close> rounds halves upwards: it is \<open>\<lfloor>x + 1/2\<rfloor>\<close>.\<close>

definition Math_round :: "number \<Rightarrow> int" where
  "Math_round x = \<lfloor>x + 1 / 2\<rfloor>"


section \<open>Listings (linkedin-scraper.ts)\<close>

record HiringManager =
  hm_name :: "jstring option"
  hm_title :: "jstring option"
  hm_linkedinUrl :: "jstring option"
  hm_email :: "jstring option"

record JobListing =
  title :: jstring
  company :: jstring
  location :: jstring
  url :: jstring
  description :: "jstring option"
  salary :: "jstring option"
  postedDate :: "jstring option"
  hiringManager :: "HiringManager option"

record SearchCriteria =
  sc_keywords :: jstring
  sc_location :: jstring
  experience :: "jstring option"
  jobType :: "jstring option"
  industry :: "jstring option"
  companySize :: "jstring option"
  excludeAgencies :: "bool option"
  maxPages :: "number option"


section \<open>Agency classifier and lead scorer (worker)\<close>

definition RECRUITMENT_AGENCY_KEYWORDS :: "jstring list" where
  "RECRUITMENT_AGENCY_KEYWORDS =
     [js ''recruitment'', js ''recruiter'', js ''talent'', js ''staffing'', js ''headhunter'',
      js ''executive search'', js ''consulting'', js ''temp agency'', js ''placement'',
      js ''resource solutions'', js ''people solutions'', js ''workforce'',
      js ''reed'', js ''adecco'', js ''randstad'', js ''hays'', js ''michael page'',
      js ''robert half'', js ''kelly services'', js ''manpower'', js ''allegis'']"

definition isRecruitmentAgency :: "(jstring \<Rightarrow> jstring) \<Rightarrow> jstring \<Rightarrow> bool" where
  "isRecruitmentAgency toLowerCase companyName =
     (let name = toLowerCase companyName
      in some (\<lambda>keyword. str_includes name (toLowerCase keyword))
           RECRUITMENT_AGENCY_KEYWORDS)"

definition qualityKeywords :: "jstring list" where
  "qualityKeywords =
     [js ''senior'', js ''lead'', js ''manager'', js ''director'', js ''head of'']"

text \<open>
  \<open>calculateLeadScore\<close> before its last line: the variable \<open>score\<close> after the
  conditional updates, in the order of the source.
\<close>

definition rawLeadScore :: "(jstring \<Rightarrow> jstring) \<Rightarrow> JobListing \<Rightarrow> int" where
  "rawLeadScore toLowerCase job =
     (let score = 50;
          score = (if \<not> isRecruitmentAgency toLowerCase (company job)
                   then score + 30 else score - 20);
          score = (if truthy (Option.bind (hiringManager job) hm_name) then score + 15 else score);
          score = (if truthy (Option.bind (hiringManager job) hm_email) then score + 20 else score);
          score = (if truthy (salary job) then score + 10 else score);
          score = (if truthy (description job) \<and> length (the (description job)) > 200
                   then score + 5 else score);
          titleLower = toLowerCase (title job);
          score = (if some (\<lambda>keyword. str_includes titleLower keyword) qualityKeywords
                   then score + 10 else score)
      in score)"

definition calculateLeadScore :: "(jstring \<Rightarrow> jstring) \<Rightarrow> JobListing \<Rightarrow> int" where
  "calculateLeadScore toLowerCase job = max 0 (min 100 (rawLeadScore toLowerCase job))"


section \<open>The specification's reading of the classifier and the scorer\<close>

text \<open>
  The sum of the claim about the score. The company is an agency "per the classifier";
  a value is present when it is defined and not empty; the title contains a seniority
  keyword case-insensitively when the lower-cased title contains the keyword (the five
  keywords are in lower case) as a contiguous block.
\<close>

definition present :: "jstring option \<Rightarrow> bool" where
  "present v = (\<exists>s. v = Some s \<and> s \<noteq> [])"

definition clamp :: "int \<Rightarrow> int \<Rightarrow> int \<Rightarrow> int" where
  "clamp lo hi x = (if x < lo then lo else if hi < x then hi else x)"

definition spec_raw_score :: "(jstring \<Rightarrow> jstring) \<Rightarrow> JobListing \<Rightarrow> int" where
  "spec_raw_score lc job =
     50
     + (if isRecruitmentAgency lc (company job) then - 20 else 30)
     + (if \<exists>h. hiringManager job = Some h \<and> present (hm_name h) then 15 else 0)
     + (if \<exists>h. hiringManager job = Some h \<and> present (hm_email h) then 20 else 0)
     + (if present (salary job) then 10 else 0)
     + (if \<exists>d. description job = Some d \<and> length d > 200 then 5 else 0)
     + (if \<exists>kw. kw \<in> set qualityKeywords \<and> sublist kw (lc (title job)) then 10 else 0)"

definition spec_score :: "(jstring \<Rightarrow> jstring) \<Rightarrow> JobListing \<Rightarrow> int" where
  "spec_score lc job = clamp 0 100 (spec_raw_score lc job)"

text \<open>
  Readings of "the name contains the keyword, compared case-insensitively". The first
  compares with the runtime's lower-casing \<open>lc\<close>: a contiguous block of the name and the
  keyword have the same lower-casing. The second does not mention the runtime: a
  contiguous block of the name is the keyword up to the case of the letters \<open>A\<close>..\<open>Z\<close>
  (\<open>ascii_lower\<close> adds 32 to the code of such a letter and to no other code).
\<close>

definition contains_ci :: "(jstring \<Rightarrow> jstring) \<Rightarrow> jstring \<Rightarrow> jstring \<Rightarrow> bool" where
  "contains_ci lc s kw = (\<exists>pre mid post. s = pre @ mid @ post \<and> lc mid = lc kw)"

definition ascii_lower :: "code_unit \<Rightarrow> code_unit" where
  "ascii_lower u = (if 65 \<le> u \<and> u \<le> 90 then u + 32 else u)"

definition contains_ascii_casing :: "jstring \<Rightarrow> jstring \<Rightarrow> bool" where
  "contains_ascii_casing s kw =
     (\<exists>pre mid post. s = pre @ mid @ post \<and> map ascii_lower mid = map ascii_lower kw)"

text \<open>
  What every ECMAScript runtime guarantees about \<open>toLowerCase\<close> on ASCII text: a string
  of ASCII characters is lowered letter by letter, and a block of ASCII characters
  inside any string is lowered in place, whatever surrounds it.
\<close>

definition is_ascii :: "jstring \<Rightarrow> bool" where
  "is_ascii s = list_all (\<lambda>u. u < 128) s"

definition lowers_ascii :: "(jstring \<Rightarrow> jstring) \<Rightarrow> bool" where
  "lowers_ascii lc \<longleftrightarrow> (\<forall>s. is_ascii s \<longrightarrow> lc s = map ascii_lower s)"

definition lowers_ascii_in_place :: "(jstring \<Rightarrow> jstring) \<Rightarrow> bool" where
  "lowers_ascii_in_place lc \<longleftrightarrow>
     (\<forall>pre mid post. is_ascii mid
        \<longrightarrow> (\<exists>pre' post'. lc (pre @ mid @ post) = pre' @ map ascii_lower mid @ post'))"

text \<open>
  The runtime's lower-casing works unit by unit on a name (and on the keywords) when
  one function of code units gives the lower-casing of every contiguous block of the
  name and of every keyword. Names without U+0130, capital sigma and letters outside the
  basic plane are such names.
\<close>

definition lowers_unitwise :: "(jstring \<Rightarrow> jstring) \<Rightarrow> jstring \<Rightarrow> bool" where
  "lowers_unitwise lc name \<longleftrightarrow>
     (\<exists>f. (\<forall>s. sublist s name \<longrightarrow> lc s = map f s)
        \<and> (\<forall>kw. kw \<in> set RECRUITMENT_AGENCY_KEYWORDS \<longrightarrow> lc kw = map f kw))"


section \<open>The scraper's pagination (LinkedInScraper.searchJobs)\<close>

text \<open>
  The browser is the environment. Fetching the result page with index \<open>page\<close> either
  throws (in \<open>page.goto\<close> or while the cards are read), or yields the job cards of the
  page and then the probe for the button \<open>Next\<close>, which finds it, does not find it,
  or throws.
\<close>

record JobCard =
  card_title :: jstring
  card_company :: jstring
  card_location :: jstring
  card_url :: jstring

datatype next_button = Next_present | Next_absent | Probe_throws

datatype page_result = Fetch_throws | Cards "JobCard list" next_button

text \<open>\<open>extractJobsFromPage\<close> pushes four fields of each card; the others stay undefined.\<close>

definition listing_of_card :: "JobCard \<Rightarrow> JobListing" where
  "listing_of_card c =
     \<lparr>title = card_title c, company = card_company c, location = card_location c,
      url = card_url c, description = None, salary = None, postedDate = None,
      hiringManager = None\<rparr>"

record ScrapingProgress =
  currentPage :: nat
  totalPages :: number
  jobsFound :: nat
  sp_progress :: int

text \<open>\<open>criteria.maxPages || 5\<close>: an absent or zero \<open>maxPages\<close> is replaced by 5.\<close>

definition effectiveMaxPages :: "SearchCriteria \<Rightarrow> number" where
  "effectiveMaxPages criteria =
     (case maxPages criteria of None \<Rightarrow> 5 | Some m \<Rightarrow> if m = 0 then 5 else m)"

text \<open>
  The loop \<open>for (let page = 0; page < maxPages; page++)\<close>. Its state is the array
  \<open>jobs\<close>, the list of the page indices requested from the browser so far, and the
  state \<open>s\<close> that the callback \<open>onProgress\<close> updates. The \<open>catch\<close> block of the body
  only logs, so that after a throw the loop goes on with \<open>page + 1\<close>; the only
  \<open>break\<close> is the one after a probe that does not find the button. The two checks
  at the head of \<open>searchJobs\<close> (browser initialised, logged in) pass where the worker
  calls it, after a successful login.
\<close>

lemma page_below_ceiling:
  fixes mp :: real
  assumes "of_nat page < mp"
  shows "page < nat \<lceil>mp\<rceil>"
proof -
  have "mp \<le> of_int \<lceil>mp\<rceil>" by (rule le_of_int_ceiling)
  with assms have "real page < of_int \<lceil>mp\<rceil>" by (rule less_le_trans)
  then have "real_of_int (int page) < of_int \<lceil>mp\<rceil>" by simp
  then have "int page < \<lceil>mp\<rceil>" by (simp only: of_int_less_iff)
  then show ?thesis by linarith
qed

function searchLoop ::
  "(nat \<Rightarrow> page_result) \<Rightarrow> (ScrapingProgress \<Rightarrow> 's \<Rightarrow> 's) \<Rightarrow> number \<Rightarrow> nat
     \<Rightarrow> JobListing list \<Rightarrow> nat list \<Rightarrow> 's \<Rightarrow> JobListing list \<times> nat list \<times> 's"
where
  "searchLoop fetch onProgress mp page jobs visited s =
     (if of_nat page < mp then
        (case fetch page of
           Fetch_throws \<Rightarrow> searchLoop fetch onProgress mp (page + 1) jobs (visited @ [page]) s
         | Cards cards nxt \<Rightarrow>
             (let jobs' = jobs @ map listing_of_card cards;
                  s' = onProgress
                         \<lparr>currentPage = page + 1, totalPages = mp, jobsFound = length jobs',
                          sp_progress = Math_round ((of_nat (page + 1) / mp) * 100)\<rparr> s
              in if nxt = Next_absent then (jobs', visited @ [page], s')
                 else searchLoop fetch onProgress mp (page + 1) jobs' (visited @ [page]) s'))
      else (jobs, visited, s))"
  by pat_completeness auto
termination
proof (relation "measure (\<lambda>(fetch, onProgress, mp, page, jobs, visited, s). nat \<lceil>mp\<rceil> - page)")
  show "wf (measure (\<lambda>(fetch :: nat \<Rightarrow> page_result, onProgress :: ScrapingProgress \<Rightarrow> 's \<Rightarrow> 's,
                       mp :: number, page :: nat, jobs :: JobListing list, visited :: nat list,
                       s :: 's). nat \<lceil>mp\<rceil> - page))"
    by simp
next
  fix fetch :: "nat \<Rightarrow> page_result" and onProgress :: "ScrapingProgress \<Rightarrow> 's \<Rightarrow> 's"
    and mp :: number and page :: nat and jobs :: "JobListing list" and visited :: "nat list"
    and s :: 's
  assume "of_nat page < mp"
  then have "page < nat \<lceil>mp\<rceil>"
    by (rule page_below_ceiling)
  then show "((fetch, onProgress, mp, page + 1, jobs, visited @ [page], s),
              (fetch, onProgress, mp, page, jobs, visited, s))
             \<in> measure (\<lambda>(fetch, onProgress, mp, page, jobs, visited, s). nat \<lceil>mp\<rceil> - page)"
    by simp
next
  fix fetch :: "nat \<Rightarrow> page_result" and onProgress :: "ScrapingProgress \<Rightarrow> 's \<Rightarrow> 's"
    and mp :: number and page :: nat and jobs :: "JobListing list" and visited :: "nat list"
    and s :: 's and cards nxt jobs' s'
  assume "of_nat page < mp"
  then have "page < nat \<lceil>mp\<rceil>"
    by (rule page_below_ceiling)
  then show "((fetch, onProgress, mp, page + 1, jobs', visited @ [page], s'),
              (fetch, onProgress, mp, page, jobs, visited, s))
             \<in> measure (\<lambda>(fetch, onProgress, mp, page, jobs, visited, s). nat \<lceil>mp\<rceil> - page)"
    by simp
qed

declare searchLoop.simps [simp del]

definition searchJobs ::
  "(nat \<Rightarrow> page_result) \<Rightarrow> SearchCriteria \<Rightarrow> (ScrapingProgress \<Rightarrow> 's \<Rightarrow> 's) \<Rightarrow> 's
     \<Rightarrow> JobListing list \<times> nat list \<times> 's" where
  "searchJobs fetch criteria onProgress s =
     searchLoop fetch onProgress (effectiveMaxPages criteria) 0 [] [] s"

section \<open>The relational store (schema.ts)\<close>

text \<open>
  The tables the worker and the API write. A table is the list of its rows in insertion
  order; a \<open>serial\<close> key is the next value of the table's sequence. The columns
  \<open>createdAt\<close> and \<open>updatedAt\<close> of companies and leads, which only have database
  defaults, are left out.

  An insert is checked against the constraints that schema.ts declares: the length of
  every \<open>varchar\<close> column, the foreign keys of a lead and the primary key of a job.
  The database counts the length of a text in characters, a surrogate pair being one
  character. A value longer than its column is rejected, unless every character beyond
  the bound is a space: then the value is cut to the bound. A rejected insert throws: it
  leaves the table as it is, and the value it took from the table's sequence is used up.
  Reads and updates do not throw, and a text is stored as it is given (its encoding for
  the database is not modelled).
\<close>

datatype db_error = Value_too_long | Foreign_key_violation | Unique_violation

definition is_high_surrogate :: "code_unit \<Rightarrow> bool" where
  "is_high_surrogate u \<longleftrightarrow> 55296 \<le> u \<and> u \<le> 56319"

definition is_low_surrogate :: "code_unit \<Rightarrow> bool" where
  "is_low_surrogate u \<longleftrightarrow> 56320 \<le> u \<and> u \<le> 57343"

fun characters :: "jstring \<Rightarrow> jstring list" where
  "characters [] = []"
| "characters [u] = [[u]]"
| "characters (u # v # rest) =
     (if is_high_surrogate u \<and> is_low_surrogate v then [u, v] # characters rest
      else [u] # characters (v # rest))"

text \<open>What a column \<open>varchar(n)\<close> stores for a value, \<open>None\<close> when it rejects it.\<close>

definition varchar :: "nat \<Rightarrow> jstring \<Rightarrow> jstring option" where
  "varchar n s =
     (let cs = characters s
      in if length cs \<le> n then Some s
         else if list_all (\<lambda>c. c = [32]) (drop n cs) then Some (concat (take n cs))
         else None)"

text \<open>The same for a column that may be \<open>NULL\<close> and a value that may be \<open>undefined\<close>.\<close>

fun varchar_null :: "nat \<Rightarrow> jstring option \<Rightarrow> jstring option option" where
  "varchar_null n None = Some None"
| "varchar_null n (Some s) = map_option Some (varchar n s)"

datatype job_status = Pending | Running | Completed | Failed | Cancelled

record Job =
  job_id :: jstring
  status :: job_status
  searchCriteria :: SearchCriteria
  totalJobsFound :: int
  leadsGenerated :: int
  progress :: int
  errorMessage :: "jstring option"
  createdAt :: nat
  updatedAt :: nat
  completedAt :: "nat option"

record Company =
  company_id :: nat
  company_name :: jstring
  company_isRecruitmentAgency :: bool
  isBlacklisted :: bool

record Lead =
  lead_id :: nat
  jobId :: jstring
  companyId :: "nat option"
  fullName :: "jstring option"
  firstName :: "jstring option"
  lastName :: "jstring option"
  lead_title :: "jstring option"
  email :: "jstring option"
  linkedinUrl :: "jstring option"
  jobTitle :: jstring
  jobUrl :: jstring
  jobLocation :: "jstring option"
  jobDescription :: "jstring option"
  jobSalary :: "jstring option"
  leadScore :: int
  isQualified :: bool
  qualificationNotes :: "jstring option"
  exportedToSheets :: bool
  exportedAt :: "nat option"

record Store =
  jobs :: "Job list"
  companies :: "Company list"
  leads :: "Lead list"
  company_seq :: nat
  lead_seq :: nat

text \<open>\<open>db.update(jobs).set(...).where(eq(jobs.id, jobId))\<close>\<close>

definition update_job :: "jstring \<Rightarrow> (Job \<Rightarrow> Job) \<Rightarrow> Store \<Rightarrow> Store" where
  "update_job i f st = st\<lparr>jobs := map (\<lambda>j. if job_id j = i then f j else j) (jobs st)\<rparr>"

text \<open>\<open>db.query.jobs.findFirst({ where: eq(jobs.id, jobId) })\<close>\<close>

definition find_job :: "jstring \<Rightarrow> Store \<Rightarrow> Job option" where
  "find_job i st = find (\<lambda>j. job_id j = i) (jobs st)"

text \<open>\<open>db.insert(jobs).values(row)\<close>: the key \<open>id\<close> of a job is unique.\<close>

definition insert_job :: "Job \<Rightarrow> Store \<Rightarrow> db_error + Store" where
  "insert_job row st =
     (if find_job (job_id row) st = None then Inr (st\<lparr>jobs := jobs st @ [row]\<rparr>)
      else Inl Unique_violation)"

text \<open>\<open>db.query.companies.findFirst({ where: eq(companies.name, name) })\<close>\<close>

definition find_company :: "jstring \<Rightarrow> Store \<Rightarrow> Company option" where
  "find_company n st = find (\<lambda>c. company_name c = n) (companies st)"

text \<open>\<open>db.insert(companies).values({ name, isRecruitmentAgency }).returning()\<close>\<close>

definition insert_company ::
  "jstring \<Rightarrow> bool \<Rightarrow> Store \<Rightarrow> (db_error + Company) \<times> Store" where
  "insert_company n agency st =
     (case varchar 255 n of
        None \<Rightarrow> (Inl Value_too_long, st\<lparr>company_seq := company_seq st + 1\<rparr>)
      | Some stored \<Rightarrow>
          (let row = \<lparr>company_id = company_seq st + 1, company_name = stored,
                      company_isRecruitmentAgency = agency, isBlacklisted = False\<rparr>
           in (Inr row, st\<lparr>companies := companies st @ [row],
                           company_seq := company_seq st + 1\<rparr>)))"

text \<open>
  The values of a lead as the columns of the table \<open>leads\<close> store them: \<open>full_name\<close>,
  \<open>title\<close>, \<open>email\<close>, \<open>job_title\<close>, \<open>job_location\<close> and \<open>job_salary\<close> are
  \<open>varchar(255)\<close>, \<open>first_name\<close> and \<open>last_name\<close> \<open>varchar(100)\<close>, \<open>linkedin_url\<close>
  and \<open>job_url\<close> \<open>varchar(500)\<close>; \<open>job_description\<close> and \<open>qualification_notes\<close> are
  \<open>text\<close>.
\<close>

definition stored_lead :: "Lead \<Rightarrow> Lead option" where
  "stored_lead vals =
     Option.bind (varchar_null 255 (fullName vals)) (\<lambda>c1.
     Option.bind (varchar_null 100 (firstName vals)) (\<lambda>c2.
     Option.bind (varchar_null 100 (lastName vals)) (\<lambda>c3.
     Option.bind (varchar_null 255 (lead_title vals)) (\<lambda>c4.
     Option.bind (varchar_null 255 (email vals)) (\<lambda>c5.
     Option.bind (varchar_null 500 (linkedinUrl vals)) (\<lambda>c6.
     Option.bind (varchar 255 (jobTitle vals)) (\<lambda>c7.
     Option.bind (varchar 500 (jobUrl vals)) (\<lambda>c8.
     Option.bind (varchar_null 255 (jobLocation vals)) (\<lambda>c9.
     Option.bind (varchar_null 255 (jobSalary vals)) (\<lambda>c10.
       Some (vals\<lparr>fullName := c1, firstName := c2, lastName := c3, lead_title := c4,
                   email := c5, linkedinUrl := c6, jobTitle := c7, jobUrl := c8,
                   jobLocation := c9, jobSalary := c10\<rparr>)))))))))))"

text \<open>
  \<open>db.insert(leads).values(...).returning()\<close>: the job of the lead and its company,
  if it names one, must exist; the key of the row is assigned here.
\<close>

definition insert_lead :: "Lead \<Rightarrow> Store \<Rightarrow> (db_error + Lead) \<times> Store" where
  "insert_lead vals st =
     (case stored_lead vals of
        None \<Rightarrow> (Inl Value_too_long, st\<lparr>lead_seq := lead_seq st + 1\<rparr>)
      | Some v \<Rightarrow>
          if find_job (jobId vals) st = None
          then (Inl Foreign_key_violation, st\<lparr>lead_seq := lead_seq st + 1\<rparr>)
          else if (case companyId vals of
                     None \<Rightarrow> False
                   | Some cid \<Rightarrow> find (\<lambda>c. company_id c = cid) (companies st) = None)
          then (Inl Foreign_key_violation, st\<lparr>lead_seq := lead_seq st + 1\<rparr>)
          else
            (let row = v\<lparr>lead_id := lead_seq st + 1\<rparr>
             in (Inr row, st\<lparr>leads := leads st @ [row], lead_seq := lead_seq st + 1\<rparr>)))"

text \<open>\<open>db.update(leads).set(...).where(eq(leads.jobUrl, u))\<close>\<close>

definition update_leads_by_jobUrl :: "jstring \<Rightarrow> (Lead \<Rightarrow> Lead) \<Rightarrow> Store \<Rightarrow> Store" where
  "update_leads_by_jobUrl u f st =
     st\<lparr>leads := map (\<lambda>l. if jobUrl l = u then f l else l) (leads st)\<rparr>"


section \<open>The worker (scrapingQueue.process)\<close>

record LeadData =
  ld_fullName :: "jstring option"
  ld_firstName :: "jstring option"
  ld_lastName :: "jstring option"
  ld_title :: "jstring option"
  ld_email :: "jstring option"
  ld_linkedinUrl :: "jstring option"
  ld_companyName :: jstring
  ld_jobTitle :: jstring
  ld_jobUrl :: jstring
  ld_jobLocation :: "jstring option"
  ld_jobSalary :: "jstring option"
  ld_leadScore :: int
  ld_qualificationNotes :: "jstring option"

record ScrapingJobData =
  sj_jobId :: jstring
  sj_searchCriteria :: SearchCriteria
  linkedinEmail :: jstring
  linkedinPassword :: jstring

text \<open>
  The world outside the worker. \<open>launch_error\<close> is the error of \<open>scraper.initialize()\<close>
  when it throws, \<open>login_ok\<close> the result of \<open>scraper.login\<close>. \<open>job_description\<close> is
  what \<open>extractJobDescription\<close> returns for a URL (the empty string also when the page
  throws, which that method catches itself), \<open>hiring_team\<close> the section "Meet the hiring
  team" of the page of a URL, absent also when the page throws. \<open>sheets\<close> says whether
  the spreadsheet service creates the sheet and takes the rows. \<open>toLowerCase\<close> is the
  lower-casing of strings of the runtime the worker runs in.
\<close>

record HiringTeam =
  team_name :: "jstring option"
  team_title :: "jstring option"
  team_profile :: "jstring option"

datatype sheets_outcome = Sheets_ok | Create_throws | Export_throws

record World =
  launch_error :: "jstring option"
  login_ok :: bool
  fetch_page :: "nat \<Rightarrow> page_result"
  job_description :: "jstring \<Rightarrow> jstring"
  hiring_team :: "jstring \<Rightarrow> HiringTeam option"
  sheets :: sheets_outcome
  now :: nat
  toLowerCase :: "jstring \<Rightarrow> jstring"

definition extractJobDescription :: "World \<Rightarrow> jstring \<Rightarrow> jstring" where
  "extractJobDescription w u = job_description w u"

text \<open>The object \<open>extractHiringManagerInfo\<close> builds has no field \<open>email\<close>.\<close>

definition extractHiringManagerInfo :: "World \<Rightarrow> jstring \<Rightarrow> HiringManager option" where
  "extractHiringManagerInfo w u =
     (case hiring_team w u of
        None \<Rightarrow> None
      | Some t \<Rightarrow> Some \<lparr>hm_name = team_name t, hm_title = team_title t,
                        hm_linkedinUrl = team_profile t, hm_email = None\<rparr>)"

text \<open>
  The worker's variables: the store, the values passed to \<open>job.progress\<close> so far (the
  progress the queue reports), \<open>processedCount\<close> and \<open>validLeads\<close>.
\<close>

record Worker =
  db :: Store
  reported :: "number list"
  processedCount :: nat
  validLeads :: "LeadData list"

text \<open>The callback the worker passes to \<open>searchJobs\<close>.\<close>

definition onProgress :: "jstring \<Rightarrow> ScrapingProgress \<Rightarrow> Worker \<Rightarrow> Worker" where
  "onProgress jid p r =
     r\<lparr>reported := reported r @ [10 + of_int (sp_progress p) * (6 / 10)],
       db := update_job jid
               (\<lambda>j. j\<lparr>progress := Math_round (10 + of_int (sp_progress p) * (6 / 10)),
                      totalJobsFound := int (jobsFound p)\<rparr>)
               (db r)\<rparr>"

text \<open>The test before \<open>continue\<close>, and the listing that is scored.\<close>

definition skipped :: "World \<Rightarrow> SearchCriteria \<Rightarrow> JobListing \<Rightarrow> bool" where
  "skipped w criteria jobListing \<longleftrightarrow>
     excludeAgencies criteria = Some True
     \<and> isRecruitmentAgency (toLowerCase w) (company jobListing)"

definition enhancedJob :: "World \<Rightarrow> JobListing \<Rightarrow> JobListing" where
  "enhancedJob w jobListing =
     jobListing\<lparr>description := Some (extractJobDescription w (url jobListing)),
                hiringManager := extractHiringManagerInfo w (url jobListing)\<rparr>"

text \<open>
  The block guarded by \<open>if (leadScore > 40)\<close>. An insert that the database rejects
  throws: the result is the error thrown, if any, and the worker's variables where the
  block ends or throws. A company inserted before the insert of the lead throws stays in
  its table (the two inserts are not in one transaction).
\<close>

definition persist_lead ::
  "World \<Rightarrow> jstring \<Rightarrow> JobListing \<Rightarrow> int \<Rightarrow> Worker \<Rightarrow> db_error option \<times> Worker" where
  "persist_lead w jid jobListing score r =
     (let description = extractJobDescription w (url jobListing);
          hm = extractHiringManagerInfo w (url jobListing);
          (found, st1) =
             (case find_company (company jobListing) (db r) of
                Some c \<Rightarrow> (Inr c, db r)
              | None \<Rightarrow> insert_company (company jobListing)
                          (isRecruitmentAgency (toLowerCase w) (company jobListing)) (db r))
      in case found of
           Inl e \<Rightarrow> (Some e, r\<lparr>db := st1\<rparr>)
         | Inr companyRecord \<Rightarrow>
             (let (inserted, st2) =
                    insert_lead
                      \<lparr>lead_id = 0, jobId = jid, companyId = Some (company_id companyRecord),
                       fullName = Option.bind hm hm_name, firstName = None, lastName = None,
                       lead_title = Option.bind hm hm_title, email = Option.bind hm hm_email,
                       linkedinUrl = Option.bind hm hm_linkedinUrl,
                       jobTitle = title jobListing, jobUrl = url jobListing,
                       jobLocation = Some (location jobListing),
                       jobDescription = Some description,
                       jobSalary = salary jobListing, leadScore = score, isQualified = True,
                       qualificationNotes = None, exportedToSheets = False,
                       exportedAt = None\<rparr>
                      st1
              in case inserted of
                   Inl e \<Rightarrow> (Some e, r\<lparr>db := st2\<rparr>)
                 | Inr leadRecord \<Rightarrow>
                     (None,
                      r\<lparr>db := st2,
                        validLeads := validLeads r @
                          [\<lparr>ld_fullName = fullName leadRecord,
                            ld_firstName = firstName leadRecord,
                            ld_lastName = lastName leadRecord,
                            ld_title = lead_title leadRecord,
                            ld_email = email leadRecord,
                            ld_linkedinUrl = linkedinUrl leadRecord,
                            ld_companyName = company jobListing,
                            ld_jobTitle = jobTitle leadRecord,
                            ld_jobUrl = jobUrl leadRecord,
                            ld_jobLocation = jobLocation leadRecord,
                            ld_jobSalary = jobSalary leadRecord,
                            ld_leadScore = leadScore leadRecord,
                            ld_qualificationNotes = qualificationNotes leadRecord\<rparr>]\<rparr>)))"

text \<open>
  The body of \<open>for (const jobListing of jobListings)\<close>, which is one \<open>try\<close> block;
  \<open>len\<close> is \<open>jobListings.length\<close>. The \<open>catch\<close> block only logs: where an insert
  throws, the round ends there, without the increment of \<open>processedCount\<close>, the report
  of progress and the update of the job's row.
\<close>

definition process_listing ::
  "World \<Rightarrow> jstring \<Rightarrow> SearchCriteria \<Rightarrow> nat \<Rightarrow> JobListing \<Rightarrow> Worker \<Rightarrow> Worker" where
  "process_listing w jid criteria len jobListing r =
     (if skipped w criteria jobListing then r
      else
        (let leadScore = calculateLeadScore (toLowerCase w) (enhancedJob w jobListing);
             (thrown, r1) = (if leadScore > 40 then persist_lead w jid jobListing leadScore r
                             else (None, r))
         in case thrown of
              Some e \<Rightarrow> r1
            | None \<Rightarrow>
                (let r2 = r1\<lparr>processedCount := processedCount r1 + 1\<rparr>;
                     progressPercent = 70 + (of_nat (processedCount r2) / of_nat len) * 20
                 in r2\<lparr>reported := reported r2 @ [progressPercent],
                       db := update_job jid
                               (\<lambda>j. j\<lparr>progress := Math_round progressPercent,
                                      leadsGenerated := int (length (validLeads r2))\<rparr>)
                               (db r2)\<rparr>)))"

fun process_listings ::
  "World \<Rightarrow> jstring \<Rightarrow> SearchCriteria \<Rightarrow> nat \<Rightarrow> JobListing list \<Rightarrow> Worker \<Rightarrow> Worker" where
  "process_listings w jid criteria len [] r = r"
| "process_listings w jid criteria len (jobListing # rest) r =
     process_listings w jid criteria len rest
       (process_listing w jid criteria len jobListing r)"

text \<open>The loop \<open>for (const lead of validLeads)\<close> that marks the exported leads.\<close>

fun mark_exported :: "nat \<Rightarrow> LeadData list \<Rightarrow> Store \<Rightarrow> Store" where
  "mark_exported t [] st = st"
| "mark_exported t (lead # rest) st =
     mark_exported t rest
       (update_leads_by_jobUrl (ld_jobUrl lead)
          (\<lambda>l. l\<lparr>exportedToSheets := True, exportedAt := Some t\<rparr>) st)"

text \<open>The outer \<open>catch\<close> block: the job is marked failed and the error is thrown again.\<close>

definition fail_job :: "World \<Rightarrow> jstring \<Rightarrow> jstring \<Rightarrow> Worker \<Rightarrow> Worker" where
  "fail_job w jid msg r =
     r\<lparr>db := update_job jid
                (\<lambda>j. j\<lparr>status := Failed, errorMessage := Some msg, updatedAt := now w\<rparr>)
                (db r)\<rparr>"

record JobResult =
  res_totalJobsFound :: nat
  res_leadsGenerated :: nat

text \<open>
  The end of the \<open>try\<close> block: the job is marked completed with progress 100, and
  the counts are returned.
\<close>

definition finish_job ::
  "World \<Rightarrow> jstring \<Rightarrow> nat \<Rightarrow> Worker \<Rightarrow> (jstring + JobResult) \<times> Worker" where
  "finish_job w jid found r =
     (let r1 = r\<lparr>db := update_job jid
                         (\<lambda>j. j\<lparr>status := Completed, progress := 100,
                                completedAt := Some (now w), updatedAt := now w\<rparr>)
                         (db r)\<rparr>;
          r2 = r1\<lparr>reported := reported r1 @ [100]\<rparr>
      in (Inr \<lparr>res_totalJobsFound = found, res_leadsGenerated = length (validLeads r2)\<rparr>, r2))"

text \<open>
  The export block: the error thrown by the spreadsheet service, if any, and the
  worker's state where the block ends or throws.
\<close>

definition export_step :: "World \<Rightarrow> Worker \<Rightarrow> jstring option \<times> Worker" where
  "export_step w r =
     (if validLeads r \<noteq> [] then
        (let r1 = r\<lparr>reported := reported r @ [90]\<rparr>
         in case sheets w of
              Create_throws \<Rightarrow> (Some (js ''Failed to create spreadsheet''), r1)
            | Export_throws \<Rightarrow> (Some (js ''Failed to export leads to Google Sheets''), r1)
            | Sheets_ok \<Rightarrow>
                (None, r1\<lparr>db := mark_exported (now w) (validLeads r1) (db r1)\<rparr>))
      else (None, r))"

text \<open>
  The worker's variables when the \<open>try\<close> block is entered, and the discovery phase:
  progress 10 after the login, then \<open>searchJobs\<close> with the callback.
\<close>

definition start_worker :: "World \<Rightarrow> jstring \<Rightarrow> Store \<Rightarrow> Worker" where
  "start_worker w jid st =
     \<lparr>db = update_job jid (\<lambda>j. j\<lparr>status := Running, updatedAt := now w\<rparr>) st,
      reported = [], processedCount = 0, validLeads = []\<rparr>"

definition discover ::
  "World \<Rightarrow> jstring \<Rightarrow> SearchCriteria \<Rightarrow> Worker \<Rightarrow> JobListing list \<times> nat list \<times> Worker" where
  "discover w jid criteria r0 =
     (let r1 = r0\<lparr>reported := reported r0 @ [10],
                  db := update_job jid (\<lambda>j. j\<lparr>progress := 10\<rparr>) (db r0)\<rparr>
      in searchJobs (fetch_page w) criteria (onProgress jid) r1)"

text \<open>
  The processor. Its result is the error thrown to the queue (\<open>Inl\<close>) or the value
  returned (\<open>Inr\<close>), with the final state of the worker's variables.
\<close>

definition process :: "World \<Rightarrow> ScrapingJobData \<Rightarrow> Store \<Rightarrow> (jstring + JobResult) \<times> Worker" where
  "process w data st =
     (let jid = sj_jobId data;
          criteria = sj_searchCriteria data;
          r0 = start_worker w jid st
      in case launch_error w of
           Some msg \<Rightarrow> (Inl msg, fail_job w jid msg r0)
         | None \<Rightarrow>
             if \<not> login_ok w then
               (Inl (js ''Failed to login to LinkedIn''),
                fail_job w jid (js ''Failed to login to LinkedIn'') r0)
             else
               (let (jobListings, visited, r2) = discover w jid criteria r0;
                    r3 = process_listings w jid criteria (length jobListings) jobListings r2;
                    (thrown, r4) = export_step w r3
                in case thrown of
                     Some msg \<Rightarrow> (Inl msg, fail_job w jid msg r4)
                   | None \<Rightarrow> finish_job w jid (length jobListings) r4))"

section \<open>The jobs API (api/jobs/route.ts, api/jobs/[id]/route.ts)\<close>

text \<open>
  A parsed request body. The fields of an object are in the order of the text; where a
  key is repeated, \<open>JSON.parse\<close> keeps the last value.
\<close>

datatype json =
  JNull | JBool bool | JNumber number | JString jstring | JArray "json list"
  | JObject "(jstring \<times> json) list"

definition json_field :: "(jstring \<times> json) list \<Rightarrow> jstring \<Rightarrow> json option" where
  "json_field kvs k = map_of (rev kvs) k"

text \<open>
  The validators of \<open>searchCriteriaSchema\<close>. The argument is the value of the field,
  \<open>None\<close> for \<open>undefined\<close>; the result is \<open>None\<close> when the validator rejects it.
  \<open>z.number().min(1).max(20)\<close> has no \<open>.int()\<close> in the source.
\<close>

fun z_string_min1 :: "json option \<Rightarrow> jstring option" where
  "z_string_min1 (Some (JString s)) = (if length s \<ge> 1 then Some s else None)"
| "z_string_min1 _ = None"

fun z_string_optional :: "json option \<Rightarrow> jstring option option" where
  "z_string_optional None = Some None"
| "z_string_optional (Some (JString s)) = Some (Some s)"
| "z_string_optional _ = None"

fun z_boolean_optional :: "json option \<Rightarrow> bool option option" where
  "z_boolean_optional None = Some None"
| "z_boolean_optional (Some (JBool b)) = Some (Some b)"
| "z_boolean_optional _ = None"

fun z_number_min1_max20_optional :: "json option \<Rightarrow> number option option" where
  "z_number_min1_max20_optional None = Some None"
| "z_number_min1_max20_optional (Some (JNumber n)) =
     (if 1 \<le> n \<and> n \<le> 20 then Some (Some n) else None)"
| "z_number_min1_max20_optional _ = None"

text \<open>\<open>searchCriteriaSchema.safeParse(input)\<close>: the parsed data, or \<open>None\<close> on failure.\<close>

fun safeParse :: "json option \<Rightarrow> SearchCriteria option" where
  "safeParse (Some (JObject kvs)) =
     Option.bind (z_string_min1 (json_field kvs (js ''keywords''))) (\<lambda>k.
     Option.bind (z_string_min1 (json_field kvs (js ''location''))) (\<lambda>l.
     Option.bind (z_string_optional (json_field kvs (js ''experience''))) (\<lambda>e.
     Option.bind (z_string_optional (json_field kvs (js ''jobType''))) (\<lambda>t.
     Option.bind (z_string_optional (json_field kvs (js ''industry''))) (\<lambda>i.
     Option.bind (z_string_optional (json_field kvs (js ''companySize''))) (\<lambda>c.
     Option.bind (z_boolean_optional (json_field kvs (js ''excludeAgencies''))) (\<lambda>x.
     Option.bind (z_number_min1_max20_optional (json_field kvs (js ''maxPages''))) (\<lambda>m.
       Some \<lparr>sc_keywords = k, sc_location = l, experience = e, jobType = t, industry = i,
             companySize = c, excludeAgencies = x, maxPages = m\<rparr>))))))))"
| "safeParse _ = None"

text \<open>
  The server: the store and the queue (the jobs the queue holds, by id). The
  environment of a request: the configured credentials, the identifier \<open>uuidv4()\<close>
  returns and the time.
\<close>

record Server =
  store :: Store
  queue :: "(jstring \<times> ScrapingJobData) list"

record ApiEnv =
  LINKEDIN_EMAIL :: "jstring option"
  LINKEDIN_PASSWORD :: "jstring option"
  uuid :: jstring
  api_now :: nat

datatype response =
  Ok_created jstring
  | Ok_cancelled
  | Bad_request jstring
  | Not_found jstring
  | Server_error jstring

fun http_status :: "response \<Rightarrow> nat" where
  "http_status (Ok_created _) = 200"
| "http_status Ok_cancelled = 200"
| "http_status (Bad_request _) = 400"
| "http_status (Not_found _) = 404"
| "http_status (Server_error _) = 500"

text \<open>
  \<open>body.searchCriteria\<close>: a property of \<open>null\<close> is a \<open>TypeError\<close> (the outer
  \<open>None\<close>), a property of a number, a string, a boolean or an array is \<open>undefined\<close>.
\<close>

fun body_searchCriteria :: "json \<Rightarrow> json option option" where
  "body_searchCriteria JNull = None"
| "body_searchCriteria (JObject kvs) = Some (json_field kvs (js ''searchCriteria''))"
| "body_searchCriteria _ = Some None"

text \<open>
  \<open>POST /api/jobs\<close>. The body is \<open>None\<close> when \<open>request.json()\<close> throws. Every
  throw inside the handler, that of a rejected insert included, is answered by the outer
  \<open>catch\<close> with status 500.
\<close>

definition POST :: "ApiEnv \<Rightarrow> json option \<Rightarrow> Server \<Rightarrow> response \<times> Server" where
  "POST env body srv =
     (case body of
        None \<Rightarrow> (Server_error (js ''Failed to create job''), srv)
      | Some b \<Rightarrow>
          (case body_searchCriteria b of
             None \<Rightarrow> (Server_error (js ''Failed to create job''), srv)
           | Some input \<Rightarrow>
               (case safeParse input of
                  None \<Rightarrow> (Bad_request (js ''Invalid search criteria''), srv)
                | Some criteria \<Rightarrow>
                    if \<not> truthy (LINKEDIN_EMAIL env) \<or> \<not> truthy (LINKEDIN_PASSWORD env)
                    then (Server_error (js ''LinkedIn credentials not configured''), srv)
                    else
                      (let jid = uuid env;
                           row = \<lparr>job_id = jid, status = Pending, searchCriteria = criteria,
                                  totalJobsFound = 0, leadsGenerated = 0, progress = 0,
                                  errorMessage = None, createdAt = api_now env,
                                  updatedAt = api_now env, completedAt = None\<rparr>;
                           q = queue srv @
                                 [(jid, \<lparr>sj_jobId = jid, sj_searchCriteria = criteria,
                                         linkedinEmail = the (LINKEDIN_EMAIL env),
                                         linkedinPassword = the (LINKEDIN_PASSWORD env)\<rparr>)]
                       in case insert_job row (store srv) of
                            Inl e \<Rightarrow> (Server_error (js ''Failed to create job''), srv)
                          | Inr st \<Rightarrow> (Ok_created jid, srv\<lparr>store := st, queue := q\<rparr>)))))"

text \<open>
  \<open>cancelJob\<close> of job-queue.ts: \<open>false\<close> when the queue does not hold the job or when
  \<open>job.remove()\<close> throws (\<open>removable\<close> says whether it succeeds), \<open>true\<close> after the
  job is removed.
\<close>

definition cancelJob ::
  "bool \<Rightarrow> jstring \<Rightarrow> (jstring \<times> ScrapingJobData) list
     \<Rightarrow> bool \<times> (jstring \<times> ScrapingJobData) list" where
  "cancelJob removable jid q =
     (case map_of q jid of
        None \<Rightarrow> (False, q)
      | Some d \<Rightarrow> if removable then (True, filter (\<lambda>e. fst e \<noteq> jid) q) else (False, q))"

text \<open>
  \<open>DELETE /api/jobs/[id]\<close>. The id comes from the address of the request and is any
  text; the column \<open>jobs.id\<close> has the type \<open>uuid\<close>, so that the first query throws
  for a text that is not a uuid (\<open>is_uuid\<close> is the database's test), and the \<open>catch\<close>
  block answers with status 500.
\<close>

definition DELETE ::
  "(jstring \<Rightarrow> bool) \<Rightarrow> bool \<Rightarrow> nat \<Rightarrow> jstring \<Rightarrow> Server \<Rightarrow> response \<times> Server" where
  "DELETE is_uuid removable t jid srv =
     (if is_uuid jid then
        (case find_job jid (store srv) of
           None \<Rightarrow> (Not_found (js ''Job not found''), srv)
         | Some dbJob \<Rightarrow>
             if status dbJob = Completed
             then (Bad_request (js ''Cannot cancel completed job''), srv)
             else
               (let (cancelled, q) = cancelJob removable jid (queue srv)
                in if cancelled
                   then (Ok_cancelled,
                         srv\<lparr>store := update_job jid
                                         (\<lambda>j. j\<lparr>status := Cancelled, updatedAt := t\<rparr>)
                                         (store srv),
                             queue := q\<rparr>)
                   else (Server_error (js ''Failed to cancel job''), srv\<lparr>queue := q\<rparr>)))
      else (Server_error (js ''Failed to cancel job''), srv))"

section \<open>Notions the claims are stated with\<close>

text \<open>
  The score the loop body computes for a listing: none when the body leaves by
  \<open>continue\<close> before the scoring line.
\<close>

definition computed_score :: "World \<Rightarrow> SearchCriteria \<Rightarrow> JobListing \<Rightarrow> int option" where
  "computed_score w criteria jobListing =
     (if skipped w criteria jobListing then None
      else Some (calculateLeadScore (toLowerCase w) (enhancedJob w jobListing)))"

text \<open>
  Pagination as the code has it: the pages are requested in order, and the first page
  that is read and shows no button \<open>Next\<close> is the last one requested; a page that
  throws is not.
\<close>

fun page_listings :: "(nat \<Rightarrow> page_result) \<Rightarrow> nat \<Rightarrow> JobListing list" where
  "page_listings fetch p =
     (case fetch p of Fetch_throws \<Rightarrow> [] | Cards cards nxt \<Rightarrow> map listing_of_card cards)"

fun last_page :: "(nat \<Rightarrow> page_result) \<Rightarrow> nat \<Rightarrow> bool" where
  "last_page fetch p =
     (case fetch p of Fetch_throws \<Rightarrow> False | Cards cards nxt \<Rightarrow> nxt = Next_absent)"

fun pages_requested :: "(nat \<Rightarrow> page_result) \<Rightarrow> nat list \<Rightarrow> nat list" where
  "pages_requested fetch [] = []"
| "pages_requested fetch (p # ps) =
     (if last_page fetch p then [p] else p # pages_requested fetch ps)"

text \<open>The Lead rows of a job, and the counter of the job's row.\<close>

definition lead_rows :: "jstring \<Rightarrow> Store \<Rightarrow> Lead list" where
  "lead_rows jid st = filter (\<lambda>l. jobId l = jid) (leads st)"

definition counter_of :: "jstring \<Rightarrow> Store \<Rightarrow> int option" where
  "counter_of jid st = map_option leadsGenerated (find_job jid st)"

text \<open>The states of the worker before the listing loop and after each of its rounds.\<close>

fun loop_states ::
  "World \<Rightarrow> jstring \<Rightarrow> SearchCriteria \<Rightarrow> nat \<Rightarrow> JobListing list \<Rightarrow> Worker \<Rightarrow> Worker list" where
  "loop_states w jid criteria len [] r = [r]"
| "loop_states w jid criteria len (jobListing # rest) r =
     r # loop_states w jid criteria len rest (process_listing w jid criteria len jobListing r)"

text \<open>
  The progress model: the value reported after the page with index \<open>p\<close> is read, and
  the value reported after the \<open>k\<close>-th processed listing of \<open>len\<close>.
\<close>

definition page_report :: "number \<Rightarrow> nat \<Rightarrow> number" where
  "page_report mp p = 10 + of_int (Math_round ((of_nat (p + 1) / mp) * 100)) * (6 / 10)"

definition listing_report :: "nat \<Rightarrow> nat \<Rightarrow> number" where
  "listing_report len k = 70 + (of_nat k / of_nat len) * 20"

definition pages_read :: "(nat \<Rightarrow> page_result) \<Rightarrow> number \<Rightarrow> nat list" where
  "pages_read fetch mp =
     filter (\<lambda>p. fetch p \<noteq> Fetch_throws) (pages_requested fetch [0..<nat \<lceil>mp\<rceil>])"

text \<open>
  The phases of a run in which the browser starts and the login succeeds: the pages
  requested and the listings discovered, the worker's variables after the discovery,
  before and after each round of the listing loop, and after the loop.
\<close>

definition pages_visited :: "World \<Rightarrow> ScrapingJobData \<Rightarrow> Store \<Rightarrow> nat list" where
  "pages_visited w data st =
     fst (snd (discover w (sj_jobId data) (sj_searchCriteria data)
                 (start_worker w (sj_jobId data) st)))"

definition discovered :: "World \<Rightarrow> ScrapingJobData \<Rightarrow> Store \<Rightarrow> JobListing list" where
  "discovered w data st =
     fst (discover w (sj_jobId data) (sj_searchCriteria data)
            (start_worker w (sj_jobId data) st))"

definition after_discovery :: "World \<Rightarrow> ScrapingJobData \<Rightarrow> Store \<Rightarrow> Worker" where
  "after_discovery w data st =
     snd (snd (discover w (sj_jobId data) (sj_searchCriteria data)
                 (start_worker w (sj_jobId data) st)))"

definition run_states :: "World \<Rightarrow> ScrapingJobData \<Rightarrow> Store \<Rightarrow> Worker list" where
  "run_states w data st =
     loop_states w (sj_jobId data) (sj_searchCriteria data)
       (length (discovered w data st)) (discovered w data st) (after_discovery w data st)"

definition after_listings :: "World \<Rightarrow> ScrapingJobData \<Rightarrow> Store \<Rightarrow> Worker" where
  "after_listings w data st =
     process_listings w (sj_jobId data) (sj_searchCriteria data)
       (length (discovered w data st)) (discovered w data st) (after_discovery w data st)"

text \<open>The listings that the loop scores above 40: not skipped and scored above 40.\<close>

definition qualifies :: "World \<Rightarrow> SearchCriteria \<Rightarrow> JobListing \<Rightarrow> bool" where
  "qualifies w criteria l \<longleftrightarrow>
     \<not> skipped w criteria l \<and> 40 < calculateLeadScore (toLowerCase w) (enhancedJob w l)"

text \<open>
  The database accepts the rows of a listing: the values of the lead fit their columns,
  the job of the lead exists, and the company is in its table already or its name fits
  the column.
\<close>

definition lead_columns_fit :: "World \<Rightarrow> JobListing \<Rightarrow> bool" where
  "lead_columns_fit w l \<longleftrightarrow>
     varchar 255 (title l) \<noteq> None \<and> varchar 500 (url l) \<noteq> None
     \<and> varchar 255 (location l) \<noteq> None \<and> varchar_null 255 (salary l) \<noteq> None
     \<and> (case extractHiringManagerInfo w (url l) of
          None \<Rightarrow> True
        | Some h \<Rightarrow> varchar_null 255 (hm_name h) \<noteq> None
                    \<and> varchar_null 255 (hm_title h) \<noteq> None
                    \<and> varchar_null 255 (hm_email h) \<noteq> None
                    \<and> varchar_null 500 (hm_linkedinUrl h) \<noteq> None)"

definition store_accepts :: "World \<Rightarrow> jstring \<Rightarrow> JobListing \<Rightarrow> Store \<Rightarrow> bool" where
  "store_accepts w jid l st \<longleftrightarrow>
     (find_company (company l) st \<noteq> None \<or> varchar 255 (company l) \<noteq> None)
     \<and> find_job jid st \<noteq> None \<and> lead_columns_fit w l"

text \<open>
  A round of the loop stores a lead (\<open>persists\<close>), and a round reaches its end, where
  it counts the listing and reports progress (\<open>completes\<close>).
\<close>

definition persists :: "World \<Rightarrow> jstring \<Rightarrow> SearchCriteria \<Rightarrow> JobListing \<Rightarrow> Store \<Rightarrow> bool" where
  "persists w jid criteria l st \<longleftrightarrow> qualifies w criteria l \<and> store_accepts w jid l st"

definition completes :: "World \<Rightarrow> jstring \<Rightarrow> SearchCriteria \<Rightarrow> JobListing \<Rightarrow> Store \<Rightarrow> bool" where
  "completes w jid criteria l st \<longleftrightarrow>
     \<not> skipped w criteria l \<and> (qualifies w criteria l \<longrightarrow> store_accepts w jid l st)"

text \<open>A lead without its export marks.\<close>

definition unmarked :: "Lead \<Rightarrow> Lead" where
  "unmarked l = l\<lparr>exportedToSheets := False, exportedAt := None\<rparr>"


section \<open>Example inputs\<close>

definition criteria_of :: "bool option \<Rightarrow> number option \<Rightarrow> SearchCriteria" where
  "criteria_of exclude pages =
     \<lparr>sc_keywords = (js ''finance''), sc_location = (js ''London''), experience = None, jobType = None,
      industry = None, companySize = None, excludeAgencies = exclude, maxPages = pages\<rparr>"

definition job_row :: "jstring \<Rightarrow> job_status \<Rightarrow> SearchCriteria \<Rightarrow> Job" where
  "job_row jid s criteria =
     \<lparr>job_id = jid, status = s, searchCriteria = criteria, totalJobsFound = 0,
      leadsGenerated = 0, progress = 0, errorMessage = None, createdAt = 0, updatedAt = 0,
      completedAt = None\<rparr>"

definition store_of :: "Job list \<Rightarrow> Store" where
  "store_of rows = \<lparr>jobs = rows, companies = [], leads = [], company_seq = 0, lead_seq = 0\<rparr>"

definition job_data :: "jstring \<Rightarrow> SearchCriteria \<Rightarrow> ScrapingJobData" where
  "job_data jid criteria =
     \<lparr>sj_jobId = jid, sj_searchCriteria = criteria, linkedinEmail = (js ''user@example.org''),
      linkedinPassword = (js ''secret'')\<rparr>"

definition api_env :: ApiEnv where
  "api_env = \<lparr>LINKEDIN_EMAIL = Some (js ''user@example.org''), LINKEDIN_PASSWORD = Some (js ''secret''),
              uuid = (js ''job-1''), api_now = 7\<rparr>"

definition card_of :: "jstring \<Rightarrow> jstring \<Rightarrow> jstring \<Rightarrow> JobCard" where
  "card_of t c u = \<lparr>card_title = t, card_company = c, card_location = (js ''London''), card_url = u\<rparr>"

text \<open>A browser whose first result page throws and whose second page is the last one.\<close>

definition flaky_pages :: "nat \<Rightarrow> page_result" where
  "flaky_pages p =
     (if p = 0 then Fetch_throws
      else Cards [card_of (js ''Accountant'') (js ''Acme Bank'') (js ''https://example.org/jobs/1'')]
             Next_absent)"

text \<open>
  A runtime function that lowers the letters \<open>A\<close>..\<open>Z\<close> and nothing else, which is
  what \<open>toLowerCase\<close> does on the ASCII texts of the examples, and one that lowers the
  Kelvin sign too.
\<close>

definition ascii_toLowerCase :: "jstring \<Rightarrow> jstring" where
  "ascii_toLowerCase s = map ascii_lower s"

definition kelvin_toLowerCase :: "jstring \<Rightarrow> jstring" where
  "kelvin_toLowerCase s = map (\<lambda>u. if u = 8490 then 107 else ascii_lower u) s"

text \<open>
  Worlds in which the browser starts, the login succeeds, descriptions are empty and
  the spreadsheet service works; \<open>pages\<close> are the result pages and \<open>team\<close> the hiring
  team sections.
\<close>

definition world_of :: "(nat \<Rightarrow> page_result) \<Rightarrow> (jstring \<Rightarrow> HiringTeam option) \<Rightarrow> World" where
  "world_of pages team =
     \<lparr>launch_error = None, login_ok = True, fetch_page = pages,
      job_description = (\<lambda>u. []), hiring_team = team, sheets = Sheets_ok, now = 3,
      toLowerCase = ascii_toLowerCase\<rparr>"

definition no_team :: "jstring \<Rightarrow> HiringTeam option" where
  "no_team u = None"

definition ann_team :: "jstring \<Rightarrow> HiringTeam option" where
  "ann_team u = Some \<lparr>team_name = Some (js ''Ann''), team_title = None, team_profile = None\<rparr>"

definition single_page :: "JobCard list \<Rightarrow> nat \<Rightarrow> page_result" where
  "single_page cards p = Cards cards Next_absent"

definition endless_pages :: "JobCard list \<Rightarrow> nat \<Rightarrow> page_result" where
  "endless_pages cards p = Cards cards Next_present"

text \<open>The worker's variables at the start of a run on a store that holds only its job.\<close>

definition fresh_worker :: "jstring \<Rightarrow> SearchCriteria \<Rightarrow> Worker" where
  "fresh_worker jid criteria =
     \<lparr>db = store_of [job_row jid Running criteria], reported = [], processedCount = 0,
      validLeads = []\<rparr>"

text \<open>A Lead row stored earlier, for a job and the URL of a posting, not yet exported.\<close>

definition old_lead :: "nat \<Rightarrow> jstring \<Rightarrow> jstring \<Rightarrow> Lead" where
  "old_lead n jid u =
     \<lparr>lead_id = n, jobId = jid, companyId = None, fullName = None, firstName = None,
      lastName = None, lead_title = None, email = None, linkedinUrl = None,
      jobTitle = (js ''Accountant''), jobUrl = u, jobLocation = None, jobDescription = None,
      jobSalary = None, leadScore = 80, isQualified = True, qualificationNotes = None,
      exportedToSheets = False, exportedAt = None\<rparr>"

text \<open>The address of a posting that is 501 characters long.\<close>

definition long_url :: jstring where
  "long_url = replicate 501 97"

section \<open>Properties of the classifier\<close>

lemma startsWith_iff: "startsWith s kw \<longleftrightarrow> (\<exists>post. s = kw @ post)"
  by (induction s kw rule: startsWith.induct) auto

lemma str_includes_iff: "str_includes s kw \<longleftrightarrow> (\<exists>pre post. s = pre @ kw @ post)"
proof (induction s)
  case Nil
  then show ?case by auto
next
  case (Cons c cs)
  show ?case
  proof
    assume "str_includes (c # cs) kw"
    then consider "startsWith (c # cs) kw" | "str_includes cs kw" by auto
    then show "\<exists>pre post. c # cs = pre @ kw @ post"
    proof cases
      case 1
      then obtain post where "c # cs = kw @ post" by (auto simp: startsWith_iff)
      then have "c # cs = [] @ kw @ post" by simp
      then show ?thesis by blast
    next
      case 2
      then obtain pre post where "cs = pre @ kw @ post" using Cons.IH by blast
      then have "c # cs = (c # pre) @ kw @ post" by simp
      then show ?thesis by blast
    qed
  next
    assume "\<exists>pre post. c # cs = pre @ kw @ post"
    then obtain pre post where eq: "c # cs = pre @ kw @ post" by blast
    show "str_includes (c # cs) kw"
    proof (cases pre)
      case Nil
      with eq have "startsWith (c # cs) kw" by (auto simp: startsWith_iff)
      then show ?thesis by simp
    next
      case (Cons p ps)
      with eq have "cs = ps @ kw @ post" by simp
      then have "str_includes cs kw" using Cons.IH by blast
      then show ?thesis by simp
    qed
  qed
qed

lemma some_iff: "some p xs \<longleftrightarrow> (\<exists>x. x \<in> set xs \<and> p x)"
  by (induction xs) auto

lemma map_eq_block:
  "map f s = pre @ kw @ post \<longleftrightarrow>
     (\<exists>pre' mid post'. s = pre' @ mid @ post' \<and> map f pre' = pre \<and> map f mid = kw
        \<and> map f post' = post)"
proof
  assume "map f s = pre @ kw @ post"
  then have "\<exists>us vs. s = us @ vs \<and> pre = map f us \<and> kw @ post = map f vs"
    by (simp only: map_eq_append_conv)
  then obtain pre' rest where 1: "s = pre' @ rest" "pre = map f pre'" "kw @ post = map f rest"
    by (elim exE conjE)
  from 1(3) have "\<exists>us vs. rest = us @ vs \<and> kw = map f us \<and> post = map f vs"
    by (simp only: append_eq_map_conv)
  then obtain mid post' where 2: "rest = mid @ post'" "kw = map f mid" "post = map f post'"
    by (elim exE conjE)
  from 1 2 have "s = pre' @ mid @ post' \<and> map f pre' = pre \<and> map f mid = kw
        \<and> map f post' = post" by simp
  then show "\<exists>pre' mid post'. s = pre' @ mid @ post' \<and> map f pre' = pre \<and> map f mid = kw
        \<and> map f post' = post" by (intro exI)
next
  assume "\<exists>pre' mid post'. s = pre' @ mid @ post' \<and> map f pre' = pre \<and> map f mid = kw
        \<and> map f post' = post"
  then obtain pre' mid post' where "s = pre' @ mid @ post'" "map f pre' = pre" "map f mid = kw"
       "map f post' = post" by (elim exE conjE)
  then show "map f s = pre @ kw @ post" by simp
qed

lemma str_includes_sublist: "str_includes s kw \<longleftrightarrow> sublist kw s"
  by (simp only: str_includes_iff sublist_def)

lemma includes_map_iff:
  "str_includes (map f s) (map f kw)
   \<longleftrightarrow> (\<exists>pre mid post. s = pre @ mid @ post \<and> map f mid = map f kw)"
proof
  assume "str_includes (map f s) (map f kw)"
  then obtain pre post where "map f s = pre @ map f kw @ post"
    unfolding str_includes_iff by (elim exE)
  then obtain pre' mid post' where "s = pre' @ mid @ post'" "map f mid = map f kw"
    unfolding map_eq_block by (elim exE conjE)
  then show "\<exists>pre mid post. s = pre @ mid @ post \<and> map f mid = map f kw"
    by (intro exI conjI)
next
  assume "\<exists>pre mid post. s = pre @ mid @ post \<and> map f mid = map f kw"
  then obtain pre mid post where "s = pre @ mid @ post" "map f mid = map f kw"
    by (elim exE conjE)
  then have "map f s = map f pre @ map f kw @ map f post"
    by simp
  then show "str_includes (map f s) (map f kw)"
    unfolding str_includes_iff by (intro exI)
qed

lemma isRecruitmentAgency_blocks:
  "isRecruitmentAgency lc name
   \<longleftrightarrow> (\<exists>kw. kw \<in> set RECRUITMENT_AGENCY_KEYWORDS \<and> sublist (lc kw) (lc name))"
  by (simp only: isRecruitmentAgency_def Let_def some_iff str_includes_sublist)

lemma agency_keywords_ascii:
  "list_all (\<lambda>kw. is_ascii kw \<and> map ascii_lower kw = kw) RECRUITMENT_AGENCY_KEYWORDS"
  by (simp add: RECRUITMENT_AGENCY_KEYWORDS_def is_ascii_def ascii_lower_def)

lemma agency_keyword_ascii:
  "kw \<in> set RECRUITMENT_AGENCY_KEYWORDS \<Longrightarrow> is_ascii kw \<and> map ascii_lower kw = kw"
  using agency_keywords_ascii by (simp only: list_all_iff)

lemma quality_keywords_ascii:
  "list_all (\<lambda>kw. is_ascii kw \<and> map ascii_lower kw = kw) qualityKeywords"
  by (simp add: qualityKeywords_def is_ascii_def ascii_lower_def)

lemma quality_keyword_ascii:
  "kw \<in> set qualityKeywords \<Longrightarrow> is_ascii kw \<and> map ascii_lower kw = kw"
  using quality_keywords_ascii by (simp only: list_all_iff)

lemma ascii_lower_below: "ascii_lower u < 128 \<longleftrightarrow> u < 128"
  by (simp add: ascii_lower_def)

lemma is_ascii_map_lower: "is_ascii (map ascii_lower s) \<longleftrightarrow> is_ascii s"
  by (induction s) (simp_all add: is_ascii_def ascii_lower_below)

lemma ascii_casing_block:
  assumes place: "lowers_ascii_in_place lc"
    and kw: "is_ascii kw" "map ascii_lower kw = kw"
    and block: "contains_ascii_casing s kw"
  shows "sublist kw (lc s)"
proof -
  from block obtain pre mid post where s: "s = pre @ mid @ post"
    and mid: "map ascii_lower mid = map ascii_lower kw"
    unfolding contains_ascii_casing_def by (elim exE conjE)
  from mid kw have low: "map ascii_lower mid = kw" by simp
  with kw(1) have "is_ascii (map ascii_lower mid)" by simp
  then have "is_ascii mid" by (simp only: is_ascii_map_lower)
  with place obtain pre' post' where "lc (pre @ mid @ post) = pre' @ map ascii_lower mid @ post'"
    unfolding lowers_ascii_in_place_def by blast
  then have "lc s = pre' @ kw @ post'" by (simp only: s low)
  then show ?thesis unfolding sublist_def by (intro exI)
qed

lemma isRecruitmentAgency_ascii_casing:
  assumes "lowers_ascii lc" and "lowers_ascii_in_place lc"
    and "kw \<in> set RECRUITMENT_AGENCY_KEYWORDS" and "contains_ascii_casing name kw"
  shows "isRecruitmentAgency lc name"
proof -
  from agency_keyword_ascii [OF assms(3)] have kw: "is_ascii kw" "map ascii_lower kw = kw"
    by simp_all
  from assms(1) kw have "lc kw = kw" by (simp add: lowers_ascii_def)
  moreover from ascii_casing_block [OF assms(2) kw assms(4)] have "sublist kw (lc name)" .
  ultimately have "sublist (lc kw) (lc name)" by simp
  with assms(3) show ?thesis unfolding isRecruitmentAgency_blocks by blast
qed

lemma some_cong_list:
  "(\<And>x. x \<in> set xs \<Longrightarrow> p x = q x) \<Longrightarrow> some p xs = some q xs"
  by (induction xs) simp_all

lemma isRecruitmentAgency_ascii:
  assumes "lowers_ascii lc" and "is_ascii name"
  shows "isRecruitmentAgency lc name = isRecruitmentAgency (map ascii_lower) name"
proof -
  from assms have name: "lc name = map ascii_lower name" by (simp add: lowers_ascii_def)
  have "lc kw = map ascii_lower kw" if "kw \<in> set RECRUITMENT_AGENCY_KEYWORDS" for kw
    using agency_keyword_ascii [OF that] assms(1) by (simp add: lowers_ascii_def)
  then have "some (\<lambda>keyword. str_includes (map ascii_lower name) (lc keyword))
               RECRUITMENT_AGENCY_KEYWORDS
             = some (\<lambda>keyword. str_includes (map ascii_lower name) (map ascii_lower keyword))
               RECRUITMENT_AGENCY_KEYWORDS"
    by (intro some_cong_list) simp
  then show ?thesis by (simp only: isRecruitmentAgency_def Let_def name)
qed

lemma isRecruitmentAgency_ascii_iff:
  assumes "lowers_ascii lc" and "is_ascii name"
  shows "isRecruitmentAgency lc name
         \<longleftrightarrow> (\<exists>kw. kw \<in> set RECRUITMENT_AGENCY_KEYWORDS \<and> contains_ascii_casing name kw)"
  unfolding isRecruitmentAgency_ascii [OF assms]
  by (simp only: isRecruitmentAgency_def Let_def some_iff includes_map_iff
        contains_ascii_casing_def)

lemma isRecruitmentAgency_unitwise:
  assumes "lowers_unitwise lc name"
  shows "isRecruitmentAgency lc name
         \<longleftrightarrow> (\<exists>kw. kw \<in> set RECRUITMENT_AGENCY_KEYWORDS \<and> contains_ci lc name kw)"
proof -
  from assms obtain f where blocks: "\<And>s. sublist s name \<Longrightarrow> lc s = map f s"
    and kws: "\<And>kw. kw \<in> set RECRUITMENT_AGENCY_KEYWORDS \<Longrightarrow> lc kw = map f kw"
    unfolding lowers_unitwise_def by blast
  have name: "lc name = map f name" by (rule blocks) simp
  have "str_includes (lc name) (lc kw) \<longleftrightarrow> contains_ci lc name kw"
    if kw: "kw \<in> set RECRUITMENT_AGENCY_KEYWORDS" for kw
  proof
    assume "str_includes (lc name) (lc kw)"
    then have "str_includes (map f name) (map f kw)" by (simp only: name kws [OF kw])
    then obtain pre mid post where split: "name = pre @ mid @ post" and eq: "map f mid = map f kw"
      unfolding includes_map_iff by (elim exE conjE)
    from split have "sublist mid name" unfolding sublist_def by (intro exI)
    then have "lc mid = map f mid" by (rule blocks)
    with eq have "lc mid = lc kw" by (simp only: kws [OF kw])
    with split show "contains_ci lc name kw" unfolding contains_ci_def by (intro exI conjI)
  next
    assume "contains_ci lc name kw"
    then obtain pre mid post where split: "name = pre @ mid @ post" and eq: "lc mid = lc kw"
      unfolding contains_ci_def by (elim exE conjE)
    from split have "sublist mid name" unfolding sublist_def by (intro exI)
    then have "lc mid = map f mid" by (rule blocks)
    with eq have "map f mid = map f kw" by (simp only: kws [OF kw])
    with split have "str_includes (map f name) (map f kw)"
      unfolding includes_map_iff by (intro exI conjI)
    then show "str_includes (lc name) (lc kw)" by (simp only: name kws [OF kw])
  qed
  then show ?thesis by (simp only: isRecruitmentAgency_def Let_def some_iff) blast
qed

lemma quality_blocks:
  "some (\<lambda>keyword. str_includes (lc t) keyword) qualityKeywords
   \<longleftrightarrow> (\<exists>kw. kw \<in> set qualityKeywords \<and> sublist kw (lc t))"
  by (simp only: some_iff str_includes_sublist)

lemma truthy_present: "truthy v \<longleftrightarrow> present v"
  by (cases v) (simp_all add: present_def)

lemma truthy_bind:
  "truthy (Option.bind m f) \<longleftrightarrow> (\<exists>h. m = Some h \<and> present (f h))"
  by (cases m) (simp_all add: truthy_present present_def)

lemma long_description:
  "truthy d \<and> length (the d) > 200 \<longleftrightarrow> (\<exists>s. d = Some s \<and> length s > 200)"
  by (cases d) auto

text \<open>The example runtimes lower ASCII text as every runtime does.\<close>

lemma lowers_ascii_example: "lowers_ascii ascii_toLowerCase"
  by (simp add: lowers_ascii_def ascii_toLowerCase_def)

lemma lowers_in_place_example: "lowers_ascii_in_place ascii_toLowerCase"
proof -
  have "\<exists>pre' post'. ascii_toLowerCase (pre @ mid @ post) = pre' @ map ascii_lower mid @ post'"
    for pre mid post
  proof -
    have "ascii_toLowerCase (pre @ mid @ post)
          = map ascii_lower pre @ map ascii_lower mid @ map ascii_lower post"
      by (simp add: ascii_toLowerCase_def)
    then show ?thesis by (intro exI)
  qed
  then show ?thesis unfolding lowers_ascii_in_place_def by blast
qed

lemma lowers_unitwise_ascii: "lowers_unitwise ascii_toLowerCase name"
  unfolding lowers_unitwise_def
  by (rule exI [where x = ascii_lower]) (simp add: ascii_toLowerCase_def)

lemma lowers_unitwise_kelvin: "lowers_unitwise kelvin_toLowerCase name"
  unfolding lowers_unitwise_def
  by (rule exI [where x = "\<lambda>u. if u = 8490 then 107 else ascii_lower u"])
     (simp add: kelvin_toLowerCase_def)

lemma clamp_max_min: "max 0 (min 100 x) = clamp 0 100 x"
  by (simp add: clamp_def)

lemma raw_arith:
  fixes a b c d e f :: bool
  shows "(let score = (50::int);
              score = (if \<not> a then score + 30 else score - 20);
              score = (if b then score + 15 else score);
              score = (if c then score + 20 else score);
              score = (if d then score + 10 else score);
              score = (if e then score + 5 else score);
              score = (if f then score + 10 else score)
          in score)
         = 50 + (if a then - 20 else 30) + (if b then 15 else 0) + (if c then 20 else 0)
              + (if d then 10 else 0) + (if e then 5 else 0) + (if f then 10 else 0)"
  by (simp add: Let_def)

lemma rawLeadScore_spec: "rawLeadScore lc job = spec_raw_score lc job"
  unfolding rawLeadScore_def spec_raw_score_def
  by (simp only: Let_def quality_blocks truthy_bind long_description
        truthy_present [of "salary job"])
     (rule raw_arith [unfolded Let_def])

lemma calculateLeadScore_spec: "calculateLeadScore lc job = spec_score lc job"
  by (simp only: calculateLeadScore_def spec_score_def clamp_max_min rawLeadScore_spec)

lemma calculateLeadScore_ascii:
  assumes "lowers_ascii lc" and "is_ascii (company job)" and "is_ascii (title job)"
  shows "calculateLeadScore lc job = calculateLeadScore (map ascii_lower) job"
proof -
  from assms(1,3) have "lc (title job) = map ascii_lower (title job)"
    by (simp add: lowers_ascii_def)
  with isRecruitmentAgency_ascii [OF assms(1,2)] show ?thesis
    by (simp only: calculateLeadScore_def rawLeadScore_def)
qed


section \<open>The claims about the classifier and the scorer\<close>

text \<open>
  C4. For every company name and every runtime, \<open>isRecruitmentAgency\<close> is true exactly
  when the name, lower-cased, contains one of the configured keywords, lower-cased, as a
  contiguous block: the name contains the keyword, compared without regard to case as
  the runtime compares. Where the lower-casing works unit by unit on the name, this is
  to say that a block of the name and a keyword have the same lower-casing. Without
  reference to the lower-casing of the code: for every runtime that lowers ASCII text as
  ECMAScript prescribes, a name that contains a keyword in any casing of the letters
  \<open>A\<close>..\<open>Z\<close> is an agency, and a name of ASCII characters is an agency exactly when
  it contains a keyword in some such casing. The function is a total function of the
  name and of the runtime's lower-casing alone.
\<close>

theorem isRecruitmentAgency_iff_keyword:
  "(isRecruitmentAgency lc name
      \<longleftrightarrow> (\<exists>kw. kw \<in> set RECRUITMENT_AGENCY_KEYWORDS \<and> sublist (lc kw) (lc name)))
   \<and> (lowers_unitwise lc name
        \<longrightarrow> (isRecruitmentAgency lc name
               \<longleftrightarrow> (\<exists>kw. kw \<in> set RECRUITMENT_AGENCY_KEYWORDS \<and> contains_ci lc name kw)))
   \<and> (lowers_ascii lc \<and> lowers_ascii_in_place lc
        \<and> (\<exists>kw. kw \<in> set RECRUITMENT_AGENCY_KEYWORDS \<and> contains_ascii_casing name kw)
        \<longrightarrow> isRecruitmentAgency lc name)
   \<and> (lowers_ascii lc \<and> is_ascii name
        \<longrightarrow> (isRecruitmentAgency lc name
               \<longleftrightarrow> (\<exists>kw. kw \<in> set RECRUITMENT_AGENCY_KEYWORDS
                          \<and> contains_ascii_casing name kw)))"
proof (intro conjI impI)
  show "isRecruitmentAgency lc name
        \<longleftrightarrow> (\<exists>kw. kw \<in> set RECRUITMENT_AGENCY_KEYWORDS \<and> sublist (lc kw) (lc name))"
    by (rule isRecruitmentAgency_blocks)
next
  assume "lowers_unitwise lc name"
  then show "isRecruitmentAgency lc name
        \<longleftrightarrow> (\<exists>kw. kw \<in> set RECRUITMENT_AGENCY_KEYWORDS \<and> contains_ci lc name kw)"
    by (rule isRecruitmentAgency_unitwise)
next
  assume "lowers_ascii lc \<and> lowers_ascii_in_place lc
        \<and> (\<exists>kw. kw \<in> set RECRUITMENT_AGENCY_KEYWORDS \<and> contains_ascii_casing name kw)"
  then obtain kw where "lowers_ascii lc" "lowers_ascii_in_place lc"
    "kw \<in> set RECRUITMENT_AGENCY_KEYWORDS" "contains_ascii_casing name kw"
    by (elim conjE exE)
  then show "isRecruitmentAgency lc name" by (rule isRecruitmentAgency_ascii_casing)
next
  assume "lowers_ascii lc \<and> is_ascii name"
  then have "lowers_ascii lc" "is_ascii name" by simp_all
  then show "isRecruitmentAgency lc name
        \<longleftrightarrow> (\<exists>kw. kw \<in> set RECRUITMENT_AGENCY_KEYWORDS \<and> contains_ascii_casing name kw)"
    by (rule isRecruitmentAgency_ascii_iff)
qed

lemma agency_hays_upper:
  "isRecruitmentAgency ascii_toLowerCase (js ''HAYS Specialist Recruitment'')"
  by (simp add: isRecruitmentAgency_def RECRUITMENT_AGENCY_KEYWORDS_def ascii_toLowerCase_def
        ascii_lower_def)

lemma not_agency_acme_example: "\<not> isRecruitmentAgency ascii_toLowerCase (js ''Acme Bank'')"
  by (simp add: isRecruitmentAgency_def RECRUITMENT_AGENCY_KEYWORDS_def ascii_toLowerCase_def
        ascii_lower_def)

lemma agency_kelvin:
  "isRecruitmentAgency kelvin_toLowerCase (js ''WOR'' @ [8490] @ js ''FORCE Ltd'')"
  by (simp add: isRecruitmentAgency_def RECRUITMENT_AGENCY_KEYWORDS_def kelvin_toLowerCase_def
        ascii_lower_def)

theorem isRecruitmentAgency_iff_keyword_witness:
  "isRecruitmentAgency ascii_toLowerCase (js ''HAYS Specialist Recruitment'')
   \<and> (\<exists>kw. kw \<in> set RECRUITMENT_AGENCY_KEYWORDS
          \<and> contains_ascii_casing (js ''HAYS Specialist Recruitment'') kw)
   \<and> \<not> isRecruitmentAgency ascii_toLowerCase (js ''Acme Bank'')
   \<and> \<not> (\<exists>kw. kw \<in> set RECRUITMENT_AGENCY_KEYWORDS
            \<and> contains_ascii_casing (js ''Acme Bank'') kw)
   \<and> isRecruitmentAgency kelvin_toLowerCase (js ''WOR'' @ [8490] @ js ''FORCE Ltd'')
   \<and> (\<exists>kw. kw \<in> set RECRUITMENT_AGENCY_KEYWORDS
          \<and> contains_ci kelvin_toLowerCase (js ''WOR'' @ [8490] @ js ''FORCE Ltd'') kw)"
proof -
  have a1: "is_ascii (js ''HAYS Specialist Recruitment'')" and a2: "is_ascii (js ''Acme Bank'')"
    by (simp_all add: is_ascii_def)
  from isRecruitmentAgency_iff_keyword [of ascii_toLowerCase "js ''HAYS Specialist Recruitment''"]
    lowers_ascii_example a1 agency_hays_upper
  have 1: "\<exists>kw. kw \<in> set RECRUITMENT_AGENCY_KEYWORDS
          \<and> contains_ascii_casing (js ''HAYS Specialist Recruitment'') kw"
    by blast
  from isRecruitmentAgency_iff_keyword [of ascii_toLowerCase "js ''Acme Bank''"]
    lowers_ascii_example a2 not_agency_acme_example
  have 2: "\<not> (\<exists>kw. kw \<in> set RECRUITMENT_AGENCY_KEYWORDS
            \<and> contains_ascii_casing (js ''Acme Bank'') kw)"
    by blast
  from isRecruitmentAgency_iff_keyword
         [of kelvin_toLowerCase "js ''WOR'' @ [8490] @ js ''FORCE Ltd''"]
    lowers_unitwise_kelvin [of "js ''WOR'' @ [8490] @ js ''FORCE Ltd''"] agency_kelvin
  have 3: "\<exists>kw. kw \<in> set RECRUITMENT_AGENCY_KEYWORDS
          \<and> contains_ci kelvin_toLowerCase (js ''WOR'' @ [8490] @ js ''FORCE Ltd'') kw"
    by blast
  from 1 2 3 agency_hays_upper not_agency_acme_example agency_kelvin show ?thesis
    by (intro conjI)
qed

text \<open>
  C1. For every listing and every runtime, the lead score is the clamp to the range
  0..100 of: 50, plus 30 for a company that the classifier does not take for an agency
  and minus 20 for one it does, plus 15 for a contact name, plus 20 for a contact email,
  plus 10 for a salary, plus 5 for a description of more than 200 characters, plus 10
  for a title that, lower-cased, contains a seniority keyword. So the score is always
  between 0 and 100, and a listing of a company that is not an agency with every bonus
  has the unclamped sum 140 and the score 100. For every runtime that lowers ASCII text
  as ECMAScript prescribes, a title that contains a seniority keyword in any casing of
  the letters \<open>A\<close>..\<open>Z\<close> has the bonus of the title.
\<close>

theorem calculateLeadScore_is_clamped_sum:
  "calculateLeadScore lc job = spec_score lc job
   \<and> 0 \<le> calculateLeadScore lc job \<and> calculateLeadScore lc job \<le> 100
   \<and> (\<not> isRecruitmentAgency lc (company job)
        \<and> (\<exists>h. hiringManager job = Some h \<and> present (hm_name h))
        \<and> (\<exists>h. hiringManager job = Some h \<and> present (hm_email h))
        \<and> present (salary job)
        \<and> (\<exists>d. description job = Some d \<and> length d > 200)
        \<and> (\<exists>kw. kw \<in> set qualityKeywords \<and> sublist kw (lc (title job)))
      \<longrightarrow> rawLeadScore lc job = 140 \<and> calculateLeadScore lc job = 100)
   \<and> (lowers_ascii_in_place lc
        \<and> (\<exists>kw. kw \<in> set qualityKeywords \<and> contains_ascii_casing (title job) kw)
      \<longrightarrow> (\<exists>kw. kw \<in> set qualityKeywords \<and> sublist kw (lc (title job))))"
proof (intro conjI impI)
  show "calculateLeadScore lc job = spec_score lc job" by (rule calculateLeadScore_spec)
  show "0 \<le> calculateLeadScore lc job" by (simp add: calculateLeadScore_def)
  show "calculateLeadScore lc job \<le> 100" by (simp add: calculateLeadScore_def)
next
  assume all: "\<not> isRecruitmentAgency lc (company job)
        \<and> (\<exists>h. hiringManager job = Some h \<and> present (hm_name h))
        \<and> (\<exists>h. hiringManager job = Some h \<and> present (hm_email h))
        \<and> present (salary job)
        \<and> (\<exists>d. description job = Some d \<and> length d > 200)
        \<and> (\<exists>kw. kw \<in> set qualityKeywords \<and> sublist kw (lc (title job)))"
  then have "spec_raw_score lc job = 140" by (simp add: spec_raw_score_def)
  then show raw: "rawLeadScore lc job = 140" by (simp only: rawLeadScore_spec)
  then show "calculateLeadScore lc job = 100" by (simp add: calculateLeadScore_def)
next
  assume "lowers_ascii_in_place lc
        \<and> (\<exists>kw. kw \<in> set qualityKeywords \<and> contains_ascii_casing (title job) kw)"
  then obtain kw where place: "lowers_ascii_in_place lc" and kw: "kw \<in> set qualityKeywords"
    and block: "contains_ascii_casing (title job) kw"
    by (elim conjE exE)
  from quality_keyword_ascii [OF kw] have "is_ascii kw" "map ascii_lower kw = kw" by simp_all
  from ascii_casing_block [OF place this block] kw
  show "\<exists>kw. kw \<in> set qualityKeywords \<and> sublist kw (lc (title job))" by blast
qed

theorem calculateLeadScore_is_clamped_sum_witness:
  "rawLeadScore ascii_toLowerCase
     \<lparr>title = js ''Senior Financial Analyst'', company = js ''Acme Bank'',
      location = js ''London'', url = js ''https://example.org/jobs/1'',
      description = Some (replicate 201 120), salary = Some (js ''50000''),
      postedDate = None,
      hiringManager = Some \<lparr>hm_name = Some (js ''Ann''), hm_title = None,
                             hm_linkedinUrl = None, hm_email = Some (js ''ann@example.org'')\<rparr>\<rparr>
     = 140
   \<and> calculateLeadScore ascii_toLowerCase
     \<lparr>title = js ''Senior Financial Analyst'', company = js ''Acme Bank'',
      location = js ''London'', url = js ''https://example.org/jobs/1'',
      description = Some (replicate 201 120), salary = Some (js ''50000''),
      postedDate = None,
      hiringManager = Some \<lparr>hm_name = Some (js ''Ann''), hm_title = None,
                             hm_linkedinUrl = None, hm_email = Some (js ''ann@example.org'')\<rparr>\<rparr>
     = 100
   \<and> calculateLeadScore kelvin_toLowerCase
     \<lparr>title = js ''Accountant'', company = js ''WOR'' @ [8490] @ js ''FORCE Ltd'',
      location = js ''London'', url = js ''https://example.org/jobs/2'',
      description = None, salary = None, postedDate = None, hiringManager = None\<rparr>
     = 30"
proof -
  let ?job = "\<lparr>title = js ''Senior Financial Analyst'', company = js ''Acme Bank'',
      location = js ''London'', url = js ''https://example.org/jobs/1'',
      description = Some (replicate 201 120), salary = Some (js ''50000''),
      postedDate = None,
      hiringManager = Some \<lparr>hm_name = Some (js ''Ann''), hm_title = None,
                             hm_linkedinUrl = None, hm_email = Some (js ''ann@example.org'')\<rparr>\<rparr>"
  let ?agency = "\<lparr>title = js ''Accountant'', company = js ''WOR'' @ [8490] @ js ''FORCE Ltd'',
      location = js ''London'', url = js ''https://example.org/jobs/2'',
      description = None, salary = None, postedDate = None, hiringManager = None\<rparr>"
  have a: "\<not> isRecruitmentAgency ascii_toLowerCase (company ?job)"
    using not_agency_acme_example by simp
  have "contains_ascii_casing (title ?job) (js ''senior'')"
  proof -
    have "title ?job = [] @ js ''Senior'' @ js '' Financial Analyst''
          \<and> map ascii_lower (js ''Senior'') = map ascii_lower (js ''senior'')"
      by (simp add: ascii_lower_def)
    then show ?thesis unfolding contains_ascii_casing_def by (intro exI)
  qed
  moreover have "js ''senior'' \<in> set qualityKeywords" by (simp add: qualityKeywords_def)
  ultimately have "\<exists>kw. kw \<in> set qualityKeywords \<and> contains_ascii_casing (title ?job) kw"
    by blast
  with calculateLeadScore_is_clamped_sum [of ascii_toLowerCase ?job] lowers_in_place_example
  have q: "\<exists>kw. kw \<in> set qualityKeywords \<and> sublist kw (ascii_toLowerCase (title ?job))"
    by blast
  have "\<not> isRecruitmentAgency ascii_toLowerCase (company ?job)
        \<and> (\<exists>h. hiringManager ?job = Some h \<and> present (hm_name h))
        \<and> (\<exists>h. hiringManager ?job = Some h \<and> present (hm_email h))
        \<and> present (salary ?job)
        \<and> (\<exists>d. description ?job = Some d \<and> length d > 200)
        \<and> (\<exists>kw. kw \<in> set qualityKeywords \<and> sublist kw (ascii_toLowerCase (title ?job)))"
    using a q by (simp add: present_def)
  with calculateLeadScore_is_clamped_sum [of ascii_toLowerCase ?job]
  have 1: "rawLeadScore ascii_toLowerCase ?job = 140
           \<and> calculateLeadScore ascii_toLowerCase ?job = 100"
    by blast
  have "\<not> (\<exists>kw. kw \<in> set qualityKeywords \<and> sublist kw (kelvin_toLowerCase (title ?agency)))"
    unfolding quality_blocks [symmetric]
    by (simp add: qualityKeywords_def kelvin_toLowerCase_def ascii_lower_def)
  with agency_kelvin have "spec_raw_score kelvin_toLowerCase ?agency = 30"
    by (simp add: spec_raw_score_def present_def)
  with calculateLeadScore_is_clamped_sum [of kelvin_toLowerCase ?agency]
  have 2: "calculateLeadScore kelvin_toLowerCase ?agency = 30"
    by (simp add: spec_score_def clamp_def)
  from 1 2 show ?thesis by blast
qed

section \<open>The claims about the API\<close>

lemma z_string_min1_Some: "z_string_min1 v = Some s \<Longrightarrow> v = Some (JString s) \<and> s \<noteq> []"
  by (cases v rule: z_string_min1.cases) (auto split: if_splits)

lemma z_number_Some:
  "z_number_min1_max20_optional v = Some (Some n) \<Longrightarrow> v = Some (JNumber n) \<and> 1 \<le> n \<and> n \<le> 20"
  by (cases v rule: z_number_min1_max20_optional.cases) (auto split: if_splits)

lemma safeParse_accepts:
  assumes "safeParse input = Some criteria"
  shows "sc_keywords criteria \<noteq> [] \<and> sc_location criteria \<noteq> []
         \<and> (case maxPages criteria of None \<Rightarrow> True | Some m \<Rightarrow> 1 \<le> m \<and> m \<le> 20)"
proof -
  from assms obtain kvs where input: "input = Some (JObject kvs)"
    by (cases input rule: safeParse.cases) auto
  from assms [unfolded input] obtain k l m where
    k: "z_string_min1 (json_field kvs (js ''keywords'')) = Some k" and
    l: "z_string_min1 (json_field kvs (js ''location'')) = Some l" and
    m: "z_number_min1_max20_optional (json_field kvs (js ''maxPages'')) = Some m" and
    c: "sc_keywords criteria = k" "sc_location criteria = l" "maxPages criteria = m"
    by (auto simp: bind_eq_Some_conv)
  from k l m c show ?thesis
    by (cases m) (auto dest: z_string_min1_Some z_number_Some)
qed

lemma POST_rejects_before_create:
  assumes "body_searchCriteria b = Some input" and "safeParse input = None"
  shows "POST env (Some b) srv = (Bad_request (js ''Invalid search criteria''), srv)"
  using assms by (simp add: POST_def)

lemma POST_accepted_creates_pending:
  assumes "body_searchCriteria b = Some input" and "safeParse input = Some criteria"
    and "truthy (LINKEDIN_EMAIL env)" and "truthy (LINKEDIN_PASSWORD env)"
    and "find_job (uuid env) (store srv) = None"
    and "POST env (Some b) srv = (resp, srv')"
  shows "resp = Ok_created (uuid env)
         \<and> (\<exists>row. jobs (store srv') = jobs (store srv) @ [row] \<and> job_id row = uuid env
               \<and> status row = Pending \<and> searchCriteria row = criteria)"
  using assms by (auto simp: POST_def Let_def insert_job_def)

text \<open>
  C9, evaluated where the code departs from it. The claim wants \<open>maxPages\<close> to be an
  integer between 1 and 20; the schema checks the bounds only, so that the submission
  with \<open>maxPages = 2.5\<close> is accepted: the handler answers with status 200 and the new job
  id, and stores a pending job whose criteria hold \<open>maxPages = 2.5\<close>.
\<close>

theorem POST_accepts_fractional_maxPages:
  "fst (POST api_env
          (Some (JObject [((js ''searchCriteria''),
             JObject [((js ''keywords''), JString (js ''finance'')), ((js ''location''), JString (js ''London'')),
                      ((js ''maxPages''), JNumber (5 / 2))])]))
          \<lparr>store = store_of [], queue = []\<rparr>)
     = Ok_created (js ''job-1'')
   \<and> map (\<lambda>j. (job_id j, status j, maxPages (searchCriteria j)))
       (jobs (store (snd (POST api_env
          (Some (JObject [((js ''searchCriteria''),
             JObject [((js ''keywords''), JString (js ''finance'')), ((js ''location''), JString (js ''London'')),
                      ((js ''maxPages''), JNumber (5 / 2))])]))
          \<lparr>store = store_of [], queue = []\<rparr>))))
     = [((js ''job-1''), Pending, Some (5 / 2))]
   \<and> (5 / 2 :: real) \<notin> \<int>"
proof -
  have "(5 / 2 :: real) \<notin> \<int>"
  proof
    assume "(5 / 2 :: real) \<in> \<int>"
    then obtain k :: int where "(5 / 2 :: real) = of_int k" by (auto elim: Ints_cases)
    then have "real_of_int (2 * k) = real_of_int 5" by simp
    then have "2 * k = 5" by (simp only: of_int_eq_iff)
    then show False by presburger
  qed
  then show ?thesis
    by (simp add: POST_def api_env_def store_of_def json_field_def Let_def insert_job_def
          find_job_def)
qed

theorem POST_accepts_fractional_maxPages_witness:
  "http_status (fst (POST api_env
          (Some (JObject [((js ''searchCriteria''),
             JObject [((js ''keywords''), JString (js ''finance'')), ((js ''location''), JString (js ''London'')),
                      ((js ''maxPages''), JNumber (5 / 2))])]))
          \<lparr>store = store_of [], queue = []\<rparr>)) = 200"
proof -
  have "http_status (Ok_created (js ''job-1'')) = 200" by simp
  with POST_accepts_fractional_maxPages show ?thesis by (elim conjE) (simp only:)
qed

lemma find_map_update:
  assumes "\<And>j. job_id (f j) = job_id j"
  shows "find (\<lambda>j. job_id j = i) (map (\<lambda>j. if job_id j = i then f j else j) rows)
         = map_option f (find (\<lambda>j. job_id j = i) rows)"
  using assms by (induction rows) simp_all

lemma find_job_update_job:
  assumes "\<And>j. job_id (f j) = job_id j"
  shows "find_job jid (update_job jid f st) = map_option f (find_job jid st)"
  using find_map_update [OF assms] by (simp add: find_job_def update_job_def)

lemma find_job_unique:
  assumes "distinct (map job_id (jobs st))" and "find_job jid st = Some j"
    and "x \<in> set (jobs st)" and "job_id x = jid"
  shows "x = j"
proof -
  from assms(2) have "j \<in> set (jobs st)" and "job_id j = jid"
    by (auto simp: find_job_def find_Some_iff)
  moreover from assms(1) have "inj_on job_id (set (jobs st))"
    by (simp add: distinct_map)
  ultimately show ?thesis using assms(3,4) by (auto dest: inj_onD)
qed

lemma cancelJob_cases:
  "cancelJob removable jid q = (True, filter (\<lambda>e. fst e \<noteq> jid) q) \<and> removable
     \<and> jid \<in> fst ` set q
   \<or> cancelJob removable jid q = (False, q) \<and> \<not> (removable \<and> jid \<in> fst ` set q)"
proof (cases "map_of q jid")
  case None
  then have "jid \<notin> fst ` set q" by (simp add: map_of_eq_None_iff)
  with None show ?thesis by (simp add: cancelJob_def)
next
  case (Some d)
  then have "map_of q jid \<noteq> None" by simp
  then have "jid \<in> fst ` set q" by (simp only: map_of_eq_None_iff not_not)
  with Some show ?thesis by (simp add: cancelJob_def)
qed

text \<open>
  C5, as the code has it. The handler refuses to cancel a completed job and leaves the
  server as it is. It answers that the job is cancelled only after the queue, which held
  the job, has removed it: the queue of the new server is the old one without the job.
  With any other answer the server is as it was. A new row of the jobs table is the
  cancelled copy of the addressed job, which was in any status but completed, failed and
  cancelled included, and it appears only with the removal from the queue. A job that
  is not completed and that the queue holds and can remove is cancelled. (The table's
  key \<open>id\<close> is unique.)
\<close>

theorem DELETE_cancels_unless_completed:
  assumes keys: "distinct (map job_id (jobs (store srv)))"
    and run: "DELETE is_uuid removable t jid srv = (resp, srv')"
  shows "(\<forall>j. is_uuid jid \<and> find_job jid (store srv) = Some j \<and> status j = Completed
              \<longrightarrow> srv' = srv \<and> http_status resp = 400)
       \<and> (resp = Ok_cancelled
              \<longrightarrow> removable \<and> jid \<in> fst ` set (queue srv)
                  \<and> queue srv' = filter (\<lambda>e. fst e \<noteq> jid) (queue srv)
                  \<and> jid \<notin> fst ` set (queue srv'))
       \<and> (resp \<noteq> Ok_cancelled \<longrightarrow> srv' = srv)
       \<and> (\<forall>j'. j' \<in> set (jobs (store srv')) \<and> j' \<notin> set (jobs (store srv))
              \<longrightarrow> resp = Ok_cancelled \<and> removable \<and> jid \<in> fst ` set (queue srv)
                  \<and> jid \<notin> fst ` set (queue srv')
                  \<and> (\<exists>j. find_job jid (store srv) = Some j \<and> status j \<noteq> Completed
                         \<and> j' = j\<lparr>status := Cancelled, updatedAt := t\<rparr>))
       \<and> (\<forall>j. is_uuid jid \<and> find_job jid (store srv) = Some j \<and> status j \<noteq> Completed
                \<and> removable \<and> jid \<in> fst ` set (queue srv)
              \<longrightarrow> resp = Ok_cancelled
                  \<and> find_job jid (store srv') = Some (j\<lparr>status := Cancelled, updatedAt := t\<rparr>))"
proof (cases "is_uuid jid")
  case False
  with run have "srv' = srv" "resp = Server_error (js ''Failed to cancel job'')"
    by (simp_all add: DELETE_def)
  with False show ?thesis by simp
next
  case uuid: True
  show ?thesis
  proof (cases "find_job jid (store srv)")
    case None
    with run uuid have "srv' = srv" "resp = Not_found (js ''Job not found'')"
      by (simp_all add: DELETE_def)
    with None show ?thesis by simp
  next
    case (Some j)
    show ?thesis
    proof (cases "status j = Completed")
      case True
      with Some run uuid
      have "srv' = srv" "resp = Bad_request (js ''Cannot cancel completed job'')"
        by (simp_all add: DELETE_def)
      with Some True show ?thesis by simp
    next
      case False
      from cancelJob_cases [of removable jid "queue srv"] show ?thesis
      proof (elim disjE conjE)
        assume c: "cancelJob removable jid (queue srv)
                     = (True, filter (\<lambda>e. fst e \<noteq> jid) (queue srv))"
          and r: removable and held: "jid \<in> fst ` set (queue srv)"
        from Some False c run uuid have resp: "resp = Ok_cancelled"
          and st: "store srv' = update_job jid (\<lambda>j. j\<lparr>status := Cancelled, updatedAt := t\<rparr>)
                                  (store srv)"
          and q: "queue srv' = filter (\<lambda>e. fst e \<noteq> jid) (queue srv)"
          by (auto simp: DELETE_def)
        from q have gone: "jid \<notin> fst ` set (queue srv')" by auto
        have new: "j' = j\<lparr>status := Cancelled, updatedAt := t\<rparr>"
          if "j' \<in> set (jobs (store srv'))" "j' \<notin> set (jobs (store srv))" for j'
        proof -
          from that st obtain x where x: "x \<in> set (jobs (store srv))" "job_id x = jid"
            "j' = x\<lparr>status := Cancelled, updatedAt := t\<rparr>"
            by (auto simp: update_job_def split: if_splits)
          from find_job_unique [OF keys Some x(1,2)] x(3) show ?thesis by simp
        qed
        have found: "find_job jid (store srv') = Some (j\<lparr>status := Cancelled, updatedAt := t\<rparr>)"
          unfolding st using Some by (simp add: find_job_update_job)
        from resp r held q gone new found Some False show ?thesis by auto
      next
        assume c: "cancelJob removable jid (queue srv) = (False, queue srv)"
          and n: "\<not> (removable \<and> jid \<in> fst ` set (queue srv))"
        from Some False c run uuid have "srv' = srv"
          and "resp = Server_error (js ''Failed to cancel job'')"
          by (auto simp: DELETE_def)
        with Some False n show ?thesis by auto
      qed
    qed
  qed
qed

text \<open>
  C5 as stated fails: a failed job that the queue still holds is moved to cancelled.
\<close>

theorem DELETE_cancels_failed_job:
  "map status (jobs (store_of [job_row (js ''job-1'') Failed (criteria_of None None)]))
     = [Failed]
   \<and> DELETE (\<lambda>i. True) True 9 (js ''job-1'')
       \<lparr>store = store_of [job_row (js ''job-1'') Failed (criteria_of None None)],
        queue = [(js ''job-1'', job_data (js ''job-1'') (criteria_of None None))]\<rparr>
     = (Ok_cancelled,
        \<lparr>store = store_of [(job_row (js ''job-1'') Failed (criteria_of None None))
                             \<lparr>status := Cancelled, updatedAt := 9\<rparr>],
         queue = []\<rparr>)"
  by (simp add: DELETE_def cancelJob_def find_job_def update_job_def store_of_def job_row_def)

theorem DELETE_cancels_unless_completed_witness:
  "fst (DELETE (\<lambda>i. True) True 9 (js ''job-1'')
         \<lparr>store = store_of [job_row (js ''job-1'') Pending (criteria_of None None)],
          queue = [(js ''job-1'', job_data (js ''job-1'') (criteria_of None None))]\<rparr>)
     = Ok_cancelled
   \<and> find_job (js ''job-1'')
       (store (snd (DELETE (\<lambda>i. True) True 9 (js ''job-1'')
         \<lparr>store = store_of [job_row (js ''job-1'') Pending (criteria_of None None)],
          queue = [(js ''job-1'', job_data (js ''job-1'') (criteria_of None None))]\<rparr>)))
     = Some ((job_row (js ''job-1'') Pending (criteria_of None None))
              \<lparr>status := Cancelled, updatedAt := 9\<rparr>)
   \<and> js ''job-1'' \<notin> fst ` set (queue (snd (DELETE (\<lambda>i. True) True 9 (js ''job-1'')
         \<lparr>store = store_of [job_row (js ''job-1'') Pending (criteria_of None None)],
          queue = [(js ''job-1'', job_data (js ''job-1'') (criteria_of None None))]\<rparr>)))"
proof -
  let ?srv = "\<lparr>store = store_of [job_row (js ''job-1'') Pending (criteria_of None None)],
          queue = [(js ''job-1'', job_data (js ''job-1'') (criteria_of None None))]\<rparr>"
  let ?j = "job_row (js ''job-1'') Pending (criteria_of None None)"
  let ?run = "DELETE (\<lambda>i. True) True 9 (js ''job-1'') ?srv"
  have keys: "distinct (map job_id (jobs (store ?srv)))"
    by (simp add: store_of_def)
  have run: "?run = (fst ?run, snd ?run)"
    by simp
  have pre: "True \<and> find_job (js ''job-1'') (store ?srv) = Some ?j \<and> status ?j \<noteq> Completed
             \<and> True \<and> js ''job-1'' \<in> fst ` set (queue ?srv)"
    by (simp add: find_job_def store_of_def job_row_def)
  from DELETE_cancels_unless_completed [OF keys run] pre show ?thesis by blast
qed

section \<open>Pagination\<close>

lemma page_below_iff:
  fixes mp :: real
  shows "of_nat page < mp \<longleftrightarrow> page < nat \<lceil>mp\<rceil>"
proof
  assume "of_nat page < mp"
  then show "page < nat \<lceil>mp\<rceil>" by (rule page_below_ceiling)
next
  assume "page < nat \<lceil>mp\<rceil>"
  then have "int page < \<lceil>mp\<rceil>" by linarith
  then have "real_of_int (int page) < mp" by (simp only: less_ceiling_iff)
  then show "of_nat page < mp" by simp
qed

lemma searchLoop_trace:
  "fst (searchLoop fetch onP mp page acc visited s)
     = acc @ concat (map (page_listings fetch)
                       (pages_requested fetch [page..<nat \<lceil>mp\<rceil>]))
   \<and> fst (snd (searchLoop fetch onP mp page acc visited s))
     = visited @ pages_requested fetch [page..<nat \<lceil>mp\<rceil>]"
proof (induction fetch onP mp page acc visited s rule: searchLoop.induct)
  case (1 fetch onP mp page acc visited s)
  note unfold = searchLoop.simps [of fetch onP mp page acc visited s]
  show ?case
  proof (cases "of_nat page < mp")
    case False
    then have "\<not> page < nat \<lceil>mp\<rceil>" using page_below_iff [of page mp] by blast
    then have "nat \<lceil>mp\<rceil> \<le> page" by (rule leI)
    then have empty: "[page..<nat \<lceil>mp\<rceil>] = []" by (rule upt_conv_Nil)
    from False have "searchLoop fetch onP mp page acc visited s = (acc, visited, s)"
      by (subst unfold) simp
    then show ?thesis by (simp only: empty fst_conv snd_conv pages_requested.simps
          list.map concat.simps append_Nil2)
  next
    case True
    then have "page < nat \<lceil>mp\<rceil>" by (rule page_below_ceiling)
    then have upt: "[page..<nat \<lceil>mp\<rceil>] = page # [page + 1..<nat \<lceil>mp\<rceil>]"
      by (simp add: upt_conv_Cons)
    show ?thesis
    proof (cases "fetch page")
      case Fetch_throws
      with True unfold "1.IH"(1) [OF True Fetch_throws] upt show ?thesis by simp
    next
      case (Cards cards nxt)
      show ?thesis
      proof (cases "nxt = Next_absent")
        case True
        with \<open>of_nat page < mp\<close> Cards unfold upt show ?thesis by (simp add: Let_def)
      next
        case False
        with \<open>of_nat page < mp\<close> Cards unfold upt
          "1.IH"(2) [OF \<open>of_nat page < mp\<close> Cards refl refl False]
        show ?thesis by (simp add: Let_def)
      qed
    qed
  qed
qed

lemma pages_requested_head: "ps \<noteq> [] \<Longrightarrow> hd ps \<in> set (pages_requested fetch ps)"
  by (cases ps) simp_all

lemma pages_requested_next:
  assumes "p \<in> set (pages_requested fetch [k..<n])" and "\<not> last_page fetch p"
    and "p + 1 < n"
  shows "p + 1 \<in> set (pages_requested fetch [k..<n])"
  using assms
proof (induction "n - k" arbitrary: k)
  case 0
  then show ?case by simp
next
  case (Suc d)
  then have "k < n" by simp
  then have upt: "[k..<n] = k # [k + 1..<n]" by (simp add: upt_conv_Cons)
  show ?case
  proof (cases "last_page fetch k")
    case True
    with Suc.prems(1) upt have "p = k" by simp
    with True Suc.prems(2) show ?thesis by simp
  next
    case False
    with Suc.prems(1) upt
    consider "p = k" | "p \<in> set (pages_requested fetch [k + 1..<n])" by auto
    then show ?thesis
    proof cases
      case 1
      with Suc.prems(3) have "[k + 1..<n] \<noteq> []" and "hd [k + 1..<n] = p + 1" by simp_all
      with pages_requested_head [of "[k + 1..<n]" fetch]
      have "p + 1 \<in> set (pages_requested fetch [k + 1..<n])" by simp
      with False upt show ?thesis by simp
    next
      case 2
      from Suc.hyps(2) have "d = n - (k + 1)" by simp
      from Suc.hyps(1) [OF this 2 Suc.prems(2,3)]
      have "p + 1 \<in> set (pages_requested fetch [k + 1..<n])" .
      with False upt show ?thesis by simp
    qed
  qed
qed

section \<open>The store and the discovery phase\<close>

lemma update_job_frame:
  "leads (update_job i f st) = leads st"
  "companies (update_job i f st) = companies st"
  "company_seq (update_job i f st) = company_seq st"
  "lead_seq (update_job i f st) = lead_seq st"
  by (simp_all add: update_job_def)

lemma find_map_rows:
  assumes "\<And>j. job_id (f j) = job_id j"
  shows "find (\<lambda>j. job_id j = k) (map (\<lambda>j. if job_id j = i then f j else j) acc)
         = map_option (\<lambda>j. if job_id j = i then f j else j) (find (\<lambda>j. job_id j = k) acc)"
  using assms by (induction acc) simp_all

lemma find_job_update:
  assumes "\<And>j. job_id (f j) = job_id j"
  shows "find_job k (update_job i f st)
         = map_option (\<lambda>j. if job_id j = i then f j else j) (find_job k st)"
  using find_map_rows [OF assms] by (simp add: find_job_def update_job_def)

lemma find_job_id: "find_job k st = Some j \<Longrightarrow> job_id j = k"
  by (auto simp: find_job_def find_Some_iff)

lemma counter_update_same:
  assumes "\<And>j. job_id (f j) = job_id j" and "\<And>j. leadsGenerated (f j) = leadsGenerated j"
  shows "counter_of k (update_job i f st) = counter_of k st"
  by (cases "find_job k st") (simp_all add: counter_of_def find_job_update [OF assms(1)] assms(2))

lemma counter_update_set:
  assumes "\<And>j. job_id (f j) = job_id j" and "\<And>j. leadsGenerated (f j) = n"
  shows "counter_of k (update_job k f st) = map_option (\<lambda>c. n) (counter_of k st)"
  by (cases "find_job k st")
     (auto simp: counter_of_def find_job_update [OF assms(1)] assms(2) dest: find_job_id)

lemma lead_rows_update_job: "lead_rows k (update_job i f st) = lead_rows k st"
  by (simp add: lead_rows_def update_job_frame)

lemma onProgress_frame:
  "validLeads (onProgress jid p r) = validLeads r"
  "processedCount (onProgress jid p r) = processedCount r"
  "leads (db (onProgress jid p r)) = leads (db r)"
  "companies (db (onProgress jid p r)) = companies (db r)"
  "counter_of k (db (onProgress jid p r)) = counter_of k (db r)"
  "reported (onProgress jid p r)
     = reported r @ [10 + of_int (sp_progress p) * (6 / 10)]"
  by (simp_all add: onProgress_def update_job_frame counter_update_same)

lemma searchLoop_invariant:
  assumes step: "\<And>p s. P s \<Longrightarrow> P (onP p s)" and init: "P s"
  shows "P (snd (snd (searchLoop fetch onP mp page acc visited s)))"
  using step init
proof (induction fetch onP mp page acc visited s rule: searchLoop.induct)
  case (1 fetch onP mp page acc visited s)
  note unfold = searchLoop.simps [of fetch onP mp page acc visited s]
  show ?case
  proof (cases "of_nat page < mp")
    case False
    then have "searchLoop fetch onP mp page acc visited s = (acc, visited, s)"
      by (subst unfold) simp
    with "1.prems"(2) show ?thesis by simp
  next
    case True
    show ?thesis
    proof (cases "fetch page")
      case Fetch_throws
      from True Fetch_throws
      have "searchLoop fetch onP mp page acc visited s
            = searchLoop fetch onP mp (page + 1) acc (visited @ [page]) s"
        by (subst unfold) simp
      with "1.IH"(1) [OF True Fetch_throws "1.prems"] show ?thesis by simp
    next
      case (Cards cards nxt)
      let ?acc = "acc @ map listing_of_card cards"
      let ?s = "onP \<lparr>currentPage = page + 1, totalPages = mp, jobsFound = length ?acc,
                      sp_progress = Math_round ((of_nat (page + 1) / mp) * 100)\<rparr> s"
      have P': "P ?s" using "1.prems"(2) by (rule "1.prems"(1))
      show ?thesis
      proof (cases "nxt = Next_absent")
        case absent: True
        from True Cards absent
        have "searchLoop fetch onP mp page acc visited s = (?acc, visited @ [page], ?s)"
          by (subst unfold) (simp add: Let_def)
        with P' show ?thesis by simp
      next
        case present: False
        from True Cards present
        have "searchLoop fetch onP mp page acc visited s
              = searchLoop fetch onP mp (page + 1) ?acc (visited @ [page]) ?s"
          by (subst unfold) (simp add: Let_def)
        with "1.IH"(2) [OF True Cards refl refl present "1.prems"(1) P'] show ?thesis by simp
      qed
    qed
  qed
qed

lemma searchLoop_reported:
  "reported (snd (snd (searchLoop fetch (onProgress jid) mp page acc visited r)))
   = reported r @ map (page_report mp)
       (filter (\<lambda>p. fetch p \<noteq> Fetch_throws) (pages_requested fetch [page..<nat \<lceil>mp\<rceil>]))"
proof (induction fetch "onProgress jid" mp page acc visited r rule: searchLoop.induct)
  case (1 fetch mp page acc visited r)
  note unfold = searchLoop.simps [of fetch "onProgress jid" mp page acc visited r]
  show ?case
  proof (cases "of_nat page < mp")
    case False
    then have "\<not> page < nat \<lceil>mp\<rceil>" using page_below_iff [of page mp] by blast
    then have "nat \<lceil>mp\<rceil> \<le> page" by (rule leI)
    then have empty: "[page..<nat \<lceil>mp\<rceil>] = []" by (rule upt_conv_Nil)
    from False have "searchLoop fetch (onProgress jid) mp page acc visited r = (acc, visited, r)"
      by (subst unfold) simp
    then show ?thesis by (simp add: empty)
  next
    case True
    then have "page < nat \<lceil>mp\<rceil>" by (rule page_below_ceiling)
    then have upt: "[page..<nat \<lceil>mp\<rceil>] = page # [page + 1..<nat \<lceil>mp\<rceil>]"
      by (simp add: upt_conv_Cons)
    show ?thesis
    proof (cases "fetch page")
      case Fetch_throws
      from True Fetch_throws
      have "searchLoop fetch (onProgress jid) mp page acc visited r
            = searchLoop fetch (onProgress jid) mp (page + 1) acc (visited @ [page]) r"
        by (subst unfold) simp
      with "1.hyps"(1) [OF True Fetch_throws] Fetch_throws upt show ?thesis by simp
    next
      case (Cards cards nxt)
      let ?acc = "acc @ map listing_of_card cards"
      let ?r = "onProgress jid \<lparr>currentPage = page + 1, totalPages = mp,
                      jobsFound = length ?acc,
                      sp_progress = Math_round ((of_nat (page + 1) / mp) * 100)\<rparr> r"
      have rep: "reported ?r = reported r @ [page_report mp page]"
        by (simp add: onProgress_frame page_report_def)
      show ?thesis
      proof (cases "nxt = Next_absent")
        case absent: True
        from True Cards absent
        have "searchLoop fetch (onProgress jid) mp page acc visited r
              = (?acc, visited @ [page], ?r)"
          by (subst unfold) (simp add: Let_def)
        with rep Cards absent upt show ?thesis by simp
      next
        case present: False
        from True Cards present
        have "searchLoop fetch (onProgress jid) mp page acc visited r
              = searchLoop fetch (onProgress jid) mp (page + 1) ?acc (visited @ [page]) ?r"
          by (subst unfold) (simp add: Let_def)
        with "1.hyps"(2) [OF True Cards refl refl present] rep Cards present upt
        show ?thesis by simp
      qed
    qed
  qed
qed

lemma discover_listings:
  "fst (discover w jid criteria r0)
   = concat (map (page_listings (fetch_page w))
       (pages_requested (fetch_page w) [0..<nat \<lceil>effectiveMaxPages criteria\<rceil>]))"
  using searchLoop_trace [of "fetch_page w" "onProgress jid" "effectiveMaxPages criteria" 0 "[]" "[]"]
  by (simp add: discover_def searchJobs_def Let_def)

lemma discover_reported:
  "reported (snd (snd (discover w jid criteria r0)))
   = reported r0 @ [10] @ map (page_report (effectiveMaxPages criteria))
                             (pages_read (fetch_page w) (effectiveMaxPages criteria))"
  by (simp add: discover_def searchJobs_def Let_def searchLoop_reported pages_read_def)

lemma discover_frame:
  "validLeads (snd (snd (discover w jid criteria r0))) = validLeads r0
   \<and> processedCount (snd (snd (discover w jid criteria r0))) = processedCount r0
   \<and> leads (db (snd (snd (discover w jid criteria r0)))) = leads (db r0)
   \<and> companies (db (snd (snd (discover w jid criteria r0)))) = companies (db r0)
   \<and> counter_of k (db (snd (snd (discover w jid criteria r0)))) = counter_of k (db r0)"
  unfolding discover_def searchJobs_def Let_def
  by (rule searchLoop_invariant)
     (simp_all add: onProgress_frame update_job_frame counter_update_same)


lemma discover_visited:
  "fst (snd (discover w jid criteria r0))
   = pages_requested (fetch_page w) [0..<nat \<lceil>effectiveMaxPages criteria\<rceil>]"
  using searchLoop_trace [of "fetch_page w" "onProgress jid" "effectiveMaxPages criteria" 0 "[]" "[]"]
  by (simp add: discover_def searchJobs_def Let_def)

section \<open>The listing loop\<close>

lemma find_job_exists_update:
  assumes "\<And>j. job_id (f j) = job_id j"
  shows "(find_job k (update_job i f st) = None) = (find_job k st = None)"
  by (simp add: find_job_update [OF assms])

lemma find_job_same_jobs: "jobs st' = jobs st \<Longrightarrow> find_job k st' = find_job k st"
  by (simp add: find_job_def)

lemma counter_same_jobs: "jobs st' = jobs st \<Longrightarrow> counter_of k st' = counter_of k st"
  by (simp add: counter_of_def find_job_def)

lemma onProgress_job_exists:
  "(find_job k (db (onProgress jid p r)) = None) = (find_job k (db r) = None)"
  by (simp add: onProgress_def find_job_exists_update)

lemma discover_job_exists:
  "(find_job k (db (snd (snd (discover w jid criteria r0)))) = None) = (find_job k (db r0) = None)"
  unfolding discover_def searchJobs_def Let_def
  by (rule searchLoop_invariant) (simp_all add: onProgress_job_exists find_job_exists_update)

lemma characters_plain:
  "\<forall>u \<in> set s. \<not> is_high_surrogate u \<Longrightarrow> characters s = map (\<lambda>u. [u]) s"
  by (induction s rule: characters.induct) simp_all

lemma varchar_short:
  "length s \<le> n \<Longrightarrow> \<forall>u \<in> set s. \<not> is_high_surrogate u \<Longrightarrow> varchar n s = Some s"
  by (simp add: varchar_def characters_plain)

lemma varchar_ascii: "is_ascii s \<Longrightarrow> length s \<le> n \<Longrightarrow> varchar n s = Some s"
  by (rule varchar_short) (auto simp: is_ascii_def list_all_iff is_high_surrogate_def)

lemma varchar_long_url: "varchar 500 long_url = None"
proof -
  have "characters long_url = replicate 501 [97]"
    unfolding long_url_def
    by (subst characters_plain) (simp_all add: is_high_surrogate_def)
  then show ?thesis by (simp add: varchar_def)
qed

lemma stored_lead_fields:
  assumes "stored_lead vals = Some v"
  shows "jobId v = jobId vals \<and> companyId v = companyId vals \<and> leadScore v = leadScore vals
       \<and> isQualified v = isQualified vals \<and> exportedToSheets v = exportedToSheets vals
       \<and> exportedAt v = exportedAt vals \<and> varchar 500 (jobUrl vals) = Some (jobUrl v)
       \<and> varchar 255 (jobTitle vals) = Some (jobTitle v)"
  using assms by (auto simp: stored_lead_def bind_eq_Some_conv)

lemma stored_lead_None_iff:
  "stored_lead vals = None \<longleftrightarrow>
     varchar_null 255 (fullName vals) = None \<or> varchar_null 100 (firstName vals) = None
     \<or> varchar_null 100 (lastName vals) = None \<or> varchar_null 255 (lead_title vals) = None
     \<or> varchar_null 255 (email vals) = None \<or> varchar_null 500 (linkedinUrl vals) = None
     \<or> varchar 255 (jobTitle vals) = None \<or> varchar 500 (jobUrl vals) = None
     \<or> varchar_null 255 (jobLocation vals) = None \<or> varchar_null 255 (jobSalary vals) = None"
  by (auto simp: stored_lead_def bind_eq_None_conv)

lemma insert_lead_Inr:
  assumes "insert_lead vals st = (Inr row, st')"
  shows "\<exists>v. stored_lead vals = Some v \<and> row = v\<lparr>lead_id := lead_seq st + 1\<rparr>
           \<and> leads st' = leads st @ [row] \<and> jobs st' = jobs st
           \<and> companies st' = companies st"
  using assms by (auto simp: insert_lead_def Let_def split: option.splits if_splits)

lemma insert_lead_Inl:
  assumes "insert_lead vals st = (Inl e, st')"
  shows "(stored_lead vals = None \<or> find_job (jobId vals) st = None
          \<or> (\<exists>cid. companyId vals = Some cid
                 \<and> find (\<lambda>c. company_id c = cid) (companies st) = None))
       \<and> leads st' = leads st \<and> jobs st' = jobs st \<and> companies st' = companies st"
  using assms by (auto simp: insert_lead_def Let_def split: option.splits if_splits)

lemma find_by_id_member:
  "c \<in> set cs \<Longrightarrow> find (\<lambda>x. company_id x = company_id c) cs \<noteq> None"
  by (auto simp: find_None_iff)

text \<open>The step that finds or creates the company of a listing.\<close>

lemma company_step_Inl:
  assumes "(case find_company n st of Some c \<Rightarrow> (Inr c, st)
            | None \<Rightarrow> insert_company n a st) = (Inl e, st1)"
  shows "find_company n st = None \<and> varchar 255 n = None
       \<and> jobs st1 = jobs st \<and> leads st1 = leads st \<and> companies st1 = companies st"
  using assms by (auto simp: insert_company_def Let_def split: option.splits)

lemma company_step_Inr:
  assumes "(case find_company n st of Some c \<Rightarrow> (Inr c, st)
            | None \<Rightarrow> insert_company n a st) = (Inr c, st1)"
  shows "(find_company n st \<noteq> None \<or> varchar 255 n \<noteq> None)
       \<and> jobs st1 = jobs st \<and> leads st1 = leads st \<and> lead_seq st1 = lead_seq st
       \<and> find (\<lambda>x. company_id x = company_id c) (companies st1) \<noteq> None
       \<and> (companies st1 = companies st
            \<or> companies st1 = companies st @ [c] \<and> company_isRecruitmentAgency c = a
               \<and> varchar 255 n = Some (company_name c))"
proof (cases "find_company n st")
  case None
  with assms show ?thesis
    by (auto simp: insert_company_def Let_def find_None_iff split: option.splits)
next
  case (Some x)
  with assms have "c = x" "st1 = st" by simp_all
  moreover from Some have "x \<in> set (companies st)"
    by (auto simp: find_company_def find_Some_iff)
  ultimately show ?thesis using Some by (simp add: find_by_id_member)
qed

text \<open>The block that stores a lead: when it throws and what it changes.\<close>

lemma persist_lead_cases:
  fixes w jid l sc r
  defines "P \<equiv> persist_lead w jid l sc r"
  shows "(store_accepts w jid l (db r)
            \<longrightarrow> fst P = None
                \<and> (\<exists>row ld. leads (db (snd P)) = leads (db r) @ [row]
                      \<and> validLeads (snd P) = validLeads r @ [ld]
                      \<and> jobId row = jid \<and> varchar 500 (url l) = Some (jobUrl row)
                      \<and> leadScore row = sc \<and> isQualified row \<and> \<not> exportedToSheets row
                      \<and> ld_jobUrl ld = jobUrl row))
       \<and> (\<not> store_accepts w jid l (db r)
            \<longrightarrow> fst P \<noteq> None \<and> leads (db (snd P)) = leads (db r)
                \<and> validLeads (snd P) = validLeads r)
       \<and> jobs (db (snd P)) = jobs (db r) \<and> processedCount (snd P) = processedCount r
       \<and> reported (snd P) = reported r"
proof -
  define hm where "hm = extractHiringManagerInfo w (url l)"
  define vals where "vals = (\<lambda>c :: Company.
    \<lparr>lead_id = 0, jobId = jid, companyId = Some (company_id c),
     fullName = Option.bind hm hm_name, firstName = None, lastName = None,
     lead_title = Option.bind hm hm_title, email = Option.bind hm hm_email,
     linkedinUrl = Option.bind hm hm_linkedinUrl,
     jobTitle = title l, jobUrl = url l, jobLocation = Some (location l),
     jobDescription = Some (extractJobDescription w (url l)),
     jobSalary = salary l, leadScore = sc, isQualified = True,
     qualificationNotes = None, exportedToSheets = False, exportedAt = None\<rparr>)"
  define C where "C = (case find_company (company l) (db r) of
                 Some c \<Rightarrow> (Inr c, db r)
               | None \<Rightarrow> insert_company (company l)
                           (isRecruitmentAgency (toLowerCase w) (company l)) (db r))"
  have fit: "stored_lead (vals c) = None \<longleftrightarrow> \<not> lead_columns_fit w l" for c
    by (cases "extractHiringManagerInfo w (url l)")
       (auto simp: stored_lead_None_iff vals_def hm_def lead_columns_fit_def)
  have id: "jobId (vals c) = jid" "companyId (vals c) = Some (company_id c)"
    "jobUrl (vals c) = url l" "leadScore (vals c) = sc" "isQualified (vals c)"
    "\<not> exportedToSheets (vals c)" for c
    by (simp_all add: vals_def)
  have P: "P = (case fst C of
                  Inl e \<Rightarrow> (Some e, r\<lparr>db := snd C\<rparr>)
                | Inr c \<Rightarrow>
                    (case fst (insert_lead (vals c) (snd C)) of
                       Inl e \<Rightarrow> (Some e, r\<lparr>db := snd (insert_lead (vals c) (snd C))\<rparr>)
                     | Inr leadRecord \<Rightarrow>
                         (None,
                          r\<lparr>db := snd (insert_lead (vals c) (snd C)),
                            validLeads := validLeads r @
                              [\<lparr>ld_fullName = fullName leadRecord,
                                ld_firstName = firstName leadRecord,
                                ld_lastName = lastName leadRecord,
                                ld_title = lead_title leadRecord,
                                ld_email = email leadRecord,
                                ld_linkedinUrl = linkedinUrl leadRecord,
                                ld_companyName = company l,
                                ld_jobTitle = jobTitle leadRecord,
                                ld_jobUrl = jobUrl leadRecord,
                                ld_jobLocation = jobLocation leadRecord,
                                ld_jobSalary = jobSalary leadRecord,
                                ld_leadScore = leadScore leadRecord,
                                ld_qualificationNotes = qualificationNotes leadRecord\<rparr>]\<rparr>)))"
    unfolding P_def persist_lead_def Let_def C_def vals_def hm_def split_def ..
  obtain found st1 where C1: "C = (found, st1)" by (cases C)
  show ?thesis
  proof (cases found)
    case (Inl e)
    with C1 have "(case find_company (company l) (db r) of
                 Some c \<Rightarrow> (Inr c, db r)
               | None \<Rightarrow> insert_company (company l)
                           (isRecruitmentAgency (toLowerCase w) (company l)) (db r))
              = (Inl e, st1)"
      unfolding C_def by simp
    from company_step_Inl [OF this]
    have none: "find_company (company l) (db r) = None \<and> varchar 255 (company l) = None"
      and st1: "jobs st1 = jobs (db r)" "leads st1 = leads (db r)"
      by simp_all
    from none have "\<not> store_accepts w jid l (db r)" by (simp add: store_accepts_def)
    with Inl C1 P st1 show ?thesis by simp
  next
    case (Inr c)
    with C1 have "(case find_company (company l) (db r) of
                 Some c \<Rightarrow> (Inr c, db r)
               | None \<Rightarrow> insert_company (company l)
                           (isRecruitmentAgency (toLowerCase w) (company l)) (db r))
              = (Inr c, st1)"
      unfolding C_def by simp
    from company_step_Inr [OF this]
    have comp: "find_company (company l) (db r) \<noteq> None \<or> varchar 255 (company l) \<noteq> None"
      and st1: "jobs st1 = jobs (db r)" "leads st1 = leads (db r)"
      and cid: "find (\<lambda>x. company_id x = company_id c) (companies st1) \<noteq> None"
      by simp_all
    from st1(1) have job: "find_job jid st1 = find_job jid (db r)"
      by (rule find_job_same_jobs)
    obtain inserted st2 where I: "insert_lead (vals c) st1 = (inserted, st2)"
      by (cases "insert_lead (vals c) st1")
    show ?thesis
    proof (cases inserted)
      case bad: (Inl e)
      from insert_lead_Inl [OF I [unfolded bad]] cid id(1,2) [of c] job
      have "stored_lead (vals c) = None \<or> find_job jid (db r) = None"
        and st2: "leads st2 = leads st1" "jobs st2 = jobs st1"
        by auto
      from this(1) have "\<not> store_accepts w jid l (db r)"
        unfolding fit by (auto simp: store_accepts_def)
      with Inr C1 I bad P st1 st2 show ?thesis by simp
    next
      case ok: (Inr row)
      from insert_lead_Inr [OF I [unfolded ok]] obtain v where
        v: "stored_lead (vals c) = Some v" and row: "row = v\<lparr>lead_id := lead_seq st1 + 1\<rparr>"
        and st2: "leads st2 = leads st1 @ [row]" "jobs st2 = jobs st1"
        by blast
      from v have "lead_columns_fit w l" using fit [of c] by auto
      moreover have "find_job jid (db r) \<noteq> None"
      proof
        assume "find_job jid (db r) = None"
        with job id(1) [of c] v I ok show False by (simp add: insert_lead_def)
      qed
      ultimately have acc: "store_accepts w jid l (db r)"
        using comp by (simp add: store_accepts_def)
      from stored_lead_fields [OF v] row id [of c]
      have fields: "jobId row = jid" "varchar 500 (url l) = Some (jobUrl row)"
        "leadScore row = sc" "isQualified row" "\<not> exportedToSheets row"
        by simp_all
      from Inr C1 I ok P have "P = (None,
                          r\<lparr>db := st2,
                            validLeads := validLeads r @
                              [\<lparr>ld_fullName = fullName row,
                                ld_firstName = firstName row,
                                ld_lastName = lastName row,
                                ld_title = lead_title row,
                                ld_email = email row,
                                ld_linkedinUrl = linkedinUrl row,
                                ld_companyName = company l,
                                ld_jobTitle = jobTitle row,
                                ld_jobUrl = jobUrl row,
                                ld_jobLocation = jobLocation row,
                                ld_jobSalary = jobSalary row,
                                ld_leadScore = leadScore row,
                                ld_qualificationNotes = qualificationNotes row\<rparr>]\<rparr>)"
        by simp
      with acc fields st2 st1 show ?thesis by simp
    qed
  qed
qed

lemma persist_lead_new_company:
  assumes "find_company (company l) (db r) = None" and "varchar 255 (company l) = Some v"
  shows "companies (db (snd (persist_lead w jid l sc r)))
         = companies (db r)
           @ [\<lparr>company_id = company_seq (db r) + 1, company_name = v,
               company_isRecruitmentAgency = isRecruitmentAgency (toLowerCase w) (company l),
               isBlacklisted = False\<rparr>]"
proof -
  let ?c = "\<lparr>company_id = company_seq (db r) + 1, company_name = v,
               company_isRecruitmentAgency = isRecruitmentAgency (toLowerCase w) (company l),
               isBlacklisted = False\<rparr>"
  let ?st1 = "(db r)\<lparr>companies := companies (db r) @ [?c],
                     company_seq := company_seq (db r) + 1\<rparr>"
  let ?I = "insert_lead
                      \<lparr>lead_id = 0, jobId = jid, companyId = Some (company_id ?c),
                       fullName = Option.bind (extractHiringManagerInfo w (url l)) hm_name,
                       firstName = None, lastName = None,
                       lead_title = Option.bind (extractHiringManagerInfo w (url l)) hm_title,
                       email = Option.bind (extractHiringManagerInfo w (url l)) hm_email,
                       linkedinUrl
                         = Option.bind (extractHiringManagerInfo w (url l)) hm_linkedinUrl,
                       jobTitle = title l, jobUrl = url l,
                       jobLocation = Some (location l),
                       jobDescription = Some (extractJobDescription w (url l)),
                       jobSalary = salary l, leadScore = sc, isQualified = True,
                       qualificationNotes = None, exportedToSheets = False,
                       exportedAt = None\<rparr>
                      ?st1"
  have comp: "companies (snd ?I) = companies ?st1"
  proof (cases "fst ?I")
    case (Inl e)
    then have "?I = (Inl e, snd ?I)" by (metis prod.collapse)
    from insert_lead_Inl [OF this] show ?thesis by simp
  next
    case (Inr row)
    then have "?I = (Inr row, snd ?I)" by (metis prod.collapse)
    from insert_lead_Inr [OF this] show ?thesis by blast
  qed
  have "companies (db (snd (persist_lead w jid l sc r))) = companies (snd ?I)"
    using assms
    by (cases "fst ?I")
       (simp_all add: persist_lead_def Let_def insert_company_def split_def)
  with comp show ?thesis by simp
qed

text \<open>One round of the loop.\<close>

lemma process_listing_skipped:
  "skipped w criteria l \<Longrightarrow> process_listing w jid criteria len l r = r"
  by (simp add: process_listing_def)

lemma process_listing_thrown:
  assumes "\<not> skipped w criteria l"
    and "40 < calculateLeadScore (toLowerCase w) (enhancedJob w l)"
    and "fst (persist_lead w jid l (calculateLeadScore (toLowerCase w) (enhancedJob w l)) r)
         \<noteq> None"
  shows "process_listing w jid criteria len l r
         = snd (persist_lead w jid l (calculateLeadScore (toLowerCase w) (enhancedJob w l)) r)"
  using assms by (auto simp: process_listing_def Let_def split_def)

lemma process_listing_ended:
  assumes "\<not> skipped w criteria l"
    and "r1 = (if 40 < calculateLeadScore (toLowerCase w) (enhancedJob w l)
               then snd (persist_lead w jid l
                           (calculateLeadScore (toLowerCase w) (enhancedJob w l)) r)
               else r)"
    and "40 < calculateLeadScore (toLowerCase w) (enhancedJob w l)
         \<longrightarrow> fst (persist_lead w jid l
                    (calculateLeadScore (toLowerCase w) (enhancedJob w l)) r) = None"
  shows "process_listing w jid criteria len l r
         = r1\<lparr>processedCount := processedCount r1 + 1,
              reported := reported r1 @ [listing_report len (processedCount r1 + 1)],
              db := update_job jid
                      (\<lambda>j. j\<lparr>progress := Math_round (listing_report len (processedCount r1 + 1)),
                             leadsGenerated := int (length (validLeads r1))\<rparr>)
                      (db r1)\<rparr>"
  using assms by (auto simp: process_listing_def Let_def split_def listing_report_def)

lemma process_listing_cases:
  fixes w jid criteria len l r
  defines "R \<equiv> process_listing w jid criteria len l r"
  shows "(persists w jid criteria l (db r)
            \<longrightarrow> (\<exists>row ld. leads (db R) = leads (db r) @ [row]
                      \<and> validLeads R = validLeads r @ [ld]
                      \<and> jobId row = jid \<and> varchar 500 (url l) = Some (jobUrl row)
                      \<and> leadScore row = calculateLeadScore (toLowerCase w) (enhancedJob w l)
                      \<and> isQualified row \<and> \<not> exportedToSheets row
                      \<and> ld_jobUrl ld = jobUrl row))
       \<and> (\<not> persists w jid criteria l (db r)
            \<longrightarrow> leads (db R) = leads (db r) \<and> validLeads R = validLeads r)
       \<and> (completes w jid criteria l (db r)
            \<longrightarrow> processedCount R = processedCount r + 1
                \<and> reported R = reported r @ [listing_report len (processedCount r + 1)]
                \<and> counter_of jid (db R)
                    = map_option (\<lambda>c. int (length (validLeads R))) (counter_of jid (db r)))
       \<and> (\<not> completes w jid criteria l (db r)
            \<longrightarrow> processedCount R = processedCount r \<and> reported R = reported r
                \<and> jobs (db R) = jobs (db r))
       \<and> (find_job k (db R) = None) = (find_job k (db r) = None)
       \<and> (\<not> qualifies w criteria l \<longrightarrow> companies (db R) = companies (db r))"
proof (cases "skipped w criteria l")
  case True
  then have "R = r" unfolding R_def by (rule process_listing_skipped)
  with True show ?thesis by (simp add: persists_def completes_def qualifies_def)
next
  case ns: False
  let ?sc = "calculateLeadScore (toLowerCase w) (enhancedJob w l)"
  let ?P = "persist_lead w jid l ?sc r"
  note pc = persist_lead_cases [of w jid l r ?sc]
  have frame: "jobs (db (snd ?P)) = jobs (db r)" "processedCount (snd ?P) = processedCount r"
    "reported (snd ?P) = reported r"
    using pc by simp_all
  have upd: "job_id (j\<lparr>progress := p, leadsGenerated := n\<rparr>) = job_id j"
    "leadsGenerated (j\<lparr>progress := p, leadsGenerated := n\<rparr>) = n" for j :: Job and p n
    by simp_all
  show ?thesis
  proof (cases "40 < ?sc")
    case low: False
    from ns low have q: "\<not> qualifies w criteria l" "\<not> persists w jid criteria l (db r)"
      "completes w jid criteria l (db r)"
      by (simp_all add: qualifies_def persists_def completes_def)
    from low have "r = (if 40 < ?sc then snd ?P else r)" "40 < ?sc \<longrightarrow> fst ?P = None"
      by simp_all
    from process_listing_ended [OF ns this, of len]
    have R: "R = r\<lparr>processedCount := processedCount r + 1,
              reported := reported r @ [listing_report len (processedCount r + 1)],
              db := update_job jid
                      (\<lambda>j. j\<lparr>progress := Math_round (listing_report len (processedCount r + 1)),
                             leadsGenerated := int (length (validLeads r))\<rparr>)
                      (db r)\<rparr>"
      unfolding R_def .
    show ?thesis unfolding R using q
      by (simp add: update_job_frame counter_update_set find_job_exists_update)
  next
    case high: True
    with ns have qual: "qualifies w criteria l" by (simp add: qualifies_def)
    show ?thesis
    proof (cases "store_accepts w jid l (db r)")
      case acc: True
      with qual ns have q: "persists w jid criteria l (db r)" "completes w jid criteria l (db r)"
        by (simp_all add: persists_def completes_def)
      from pc acc have ok: "fst ?P = None" by simp
      from pc acc obtain row ld where
        eff: "leads (db (snd ?P)) = leads (db r) @ [row]"
          "validLeads (snd ?P) = validLeads r @ [ld]"
          "jobId row = jid" "varchar 500 (url l) = Some (jobUrl row)"
          "leadScore row = ?sc" "isQualified row" "\<not> exportedToSheets row"
          "ld_jobUrl ld = jobUrl row"
        by blast
      from high ok have "snd ?P = (if 40 < ?sc then snd ?P else r)" "40 < ?sc \<longrightarrow> fst ?P = None"
        by simp_all
      from process_listing_ended [OF ns this, of len]
      have R: "R = (snd ?P)\<lparr>processedCount := processedCount (snd ?P) + 1,
              reported := reported (snd ?P) @ [listing_report len (processedCount (snd ?P) + 1)],
              db := update_job jid
                      (\<lambda>j. j\<lparr>progress := Math_round
                                            (listing_report len (processedCount (snd ?P) + 1)),
                             leadsGenerated := int (length (validLeads (snd ?P)))\<rparr>)
                      (db (snd ?P))\<rparr>"
        unfolding R_def .
      have c: "counter_of jid (db (snd ?P)) = counter_of jid (db r)"
        using frame(1) by (rule counter_same_jobs)
      have f: "find_job k (db (snd ?P)) = find_job k (db r)"
        using frame(1) by (rule find_job_same_jobs)
      have "\<exists>row ld. leads (db R) = leads (db r) @ [row]
                      \<and> validLeads R = validLeads r @ [ld]
                      \<and> jobId row = jid \<and> varchar 500 (url l) = Some (jobUrl row)
                      \<and> leadScore row = ?sc
                      \<and> isQualified row \<and> \<not> exportedToSheets row
                      \<and> ld_jobUrl ld = jobUrl row"
        unfolding R using eff by (simp add: update_job_frame)
      moreover have "processedCount R = processedCount r + 1
                \<and> reported R = reported r @ [listing_report len (processedCount r + 1)]
                \<and> counter_of jid (db R)
                    = map_option (\<lambda>c. int (length (validLeads R))) (counter_of jid (db r))"
        unfolding R by (simp add: frame counter_update_set c)
      moreover have "(find_job k (db R) = None) = (find_job k (db r) = None)"
        unfolding R by (simp add: find_job_exists_update f)
      ultimately show ?thesis using q qual by blast
    next
      case rej: False
      with qual have q: "\<not> persists w jid criteria l (db r)"
        "\<not> completes w jid criteria l (db r)"
        by (simp_all add: persists_def completes_def)
      from pc rej have bad: "fst ?P \<noteq> None" and same: "leads (db (snd ?P)) = leads (db r)"
        "validLeads (snd ?P) = validLeads r"
        by simp_all
      from process_listing_thrown [OF ns high bad, of len]
      have R: "R = snd ?P" unfolding R_def .
      have f: "find_job k (db (snd ?P)) = find_job k (db r)"
        using frame(1) by (rule find_job_same_jobs)
      show ?thesis unfolding R using q qual same frame f by simp
    qed
  qed
qed

lemma process_listing_persists:
  assumes "persists w jid criteria l (db r)"
  shows "\<exists>row ld. leads (db (process_listing w jid criteria len l r)) = leads (db r) @ [row]
           \<and> validLeads (process_listing w jid criteria len l r) = validLeads r @ [ld]
           \<and> jobId row = jid \<and> varchar 500 (url l) = Some (jobUrl row)
           \<and> leadScore row = calculateLeadScore (toLowerCase w) (enhancedJob w l)
           \<and> isQualified row \<and> \<not> exportedToSheets row \<and> ld_jobUrl ld = jobUrl row"
  using process_listing_cases [of w jid criteria l r len] assms by blast

lemma process_listing_no_row:
  assumes "\<not> persists w jid criteria l (db r)"
  shows "leads (db (process_listing w jid criteria len l r)) = leads (db r)
       \<and> validLeads (process_listing w jid criteria len l r) = validLeads r"
  using process_listing_cases [of w jid criteria l r len] assms by blast

lemma process_listing_untouched:
  assumes "\<not> qualifies w criteria l"
  shows "leads (db (process_listing w jid criteria len l r)) = leads (db r)
       \<and> companies (db (process_listing w jid criteria len l r)) = companies (db r)
       \<and> validLeads (process_listing w jid criteria len l r) = validLeads r"
  using process_listing_cases [of w jid criteria l r len] assms
  by (simp add: persists_def)

lemma process_listing_completes:
  assumes "completes w jid criteria l (db r)"
  shows "processedCount (process_listing w jid criteria len l r) = processedCount r + 1
       \<and> reported (process_listing w jid criteria len l r)
           = reported r @ [listing_report len (processedCount r + 1)]
       \<and> counter_of jid (db (process_listing w jid criteria len l r))
           = map_option (\<lambda>c. int (length (validLeads (process_listing w jid criteria len l r))))
               (counter_of jid (db r))"
  using process_listing_cases [of w jid criteria l r len] assms by blast

lemma process_listing_stops:
  assumes "\<not> completes w jid criteria l (db r)"
  shows "processedCount (process_listing w jid criteria len l r) = processedCount r
       \<and> reported (process_listing w jid criteria len l r) = reported r
       \<and> jobs (db (process_listing w jid criteria len l r)) = jobs (db r)"
  using process_listing_cases [of w jid criteria l r len] assms by blast

lemma process_listing_job_exists:
  "(find_job k (db (process_listing w jid criteria len l r)) = None)
   = (find_job k (db r) = None)"
  using process_listing_cases [of w jid criteria l r len k] by blast

lemma process_listing_valid_count:
  "length (validLeads (process_listing w jid criteria len l r))
   = length (validLeads r) + (if persists w jid criteria l (db r) then 1 else 0)"
proof (cases "persists w jid criteria l (db r)")
  case True
  from process_listing_persists [OF True, of len] True show ?thesis by auto
next
  case False
  from process_listing_no_row [OF False, of len] False show ?thesis by simp
qed

lemma process_listing_rows_count:
  "length (lead_rows jid (db (process_listing w jid criteria len l r)))
   = length (lead_rows jid (db r)) + (if persists w jid criteria l (db r) then 1 else 0)"
proof (cases "persists w jid criteria l (db r)")
  case True
  from process_listing_persists [OF True, of len] True show ?thesis
    by (auto simp: lead_rows_def)
next
  case False
  from process_listing_no_row [OF False, of len] False show ?thesis
    by (simp add: lead_rows_def)
qed

lemma process_listing_counter_inv:
  assumes "counter_of jid (db r) = Some (int (length (validLeads r)))"
  shows "counter_of jid (db (process_listing w jid criteria len l r))
         = Some (int (length (validLeads (process_listing w jid criteria len l r))))"
proof (cases "completes w jid criteria l (db r)")
  case True
  from process_listing_completes [OF True, of len] assms show ?thesis by simp
next
  case False
  then have "\<not> persists w jid criteria l (db r)"
    by (auto simp: persists_def completes_def qualifies_def)
  from process_listing_no_row [OF this, of len] process_listing_stops [OF False, of len] assms
  show ?thesis by (simp add: counter_of_def find_job_def)
qed

lemma process_listing_rows_inv:
  assumes "length (lead_rows jid (db r)) = c + length (validLeads r)"
  shows "length (lead_rows jid (db (process_listing w jid criteria len l r)))
         = c + length (validLeads (process_listing w jid criteria len l r))"
  using assms by (simp add: process_listing_rows_count process_listing_valid_count)

lemma sure_accepts:
  assumes "find_job jid st \<noteq> None" and "varchar 255 (company l) \<noteq> None"
    and "lead_columns_fit w l"
  shows "store_accepts w jid l st"
  using assms by (simp add: store_accepts_def)

lemma process_listing_companies:
  assumes "qualifies w criteria l"
  shows "companies (db (process_listing w jid criteria len l r))
         = companies (db (snd (persist_lead w jid l
                                 (calculateLeadScore (toLowerCase w) (enhancedJob w l)) r)))"
proof -
  let ?sc = "calculateLeadScore (toLowerCase w) (enhancedJob w l)"
  let ?P = "persist_lead w jid l ?sc r"
  from assms have ns: "\<not> skipped w criteria l" and high: "40 < ?sc"
    by (simp_all add: qualifies_def)
  show ?thesis
  proof (cases "fst ?P = None")
    case True
    with high have "snd ?P = (if 40 < ?sc then snd ?P else r)" "40 < ?sc \<longrightarrow> fst ?P = None"
      by simp_all
    from process_listing_ended [OF ns this, of len] show ?thesis
      by (simp add: update_job_frame)
  next
    case False
    from process_listing_thrown [OF ns high False, of len] show ?thesis by simp
  qed
qed

section \<open>The listing loop as a whole\<close>

lemma process_listings_invariant:
  assumes "\<And>l r. P r \<Longrightarrow> P (process_listing w jid criteria len l r)" and "P r"
  shows "P (process_listings w jid criteria len ls r)"
  using assms(2) by (induction ls arbitrary: r) (simp_all add: assms(1))

lemma process_listings_job_exists:
  "(find_job k (db (process_listings w jid criteria len ls r)) = None)
   = (find_job k (db r) = None)"
  by (rule process_listings_invariant
        [where P = "\<lambda>s. (find_job k (db s) = None) = (find_job k (db r) = None)"])
     (simp_all add: process_listing_job_exists)

lemma process_listings_counter_inv:
  assumes "counter_of jid (db r) = Some (int (length (validLeads r)))"
  shows "counter_of jid (db (process_listings w jid criteria len ls r))
         = Some (int (length (validLeads (process_listings w jid criteria len ls r))))"
  using assms
  by (rule process_listings_invariant
        [where P = "\<lambda>s. counter_of jid (db s) = Some (int (length (validLeads s)))", rotated])
     (rule process_listing_counter_inv)

lemma process_listings_rows_inv:
  assumes "length (lead_rows jid (db r)) = c + length (validLeads r)"
  shows "length (lead_rows jid (db (process_listings w jid criteria len ls r)))
         = c + length (validLeads (process_listings w jid criteria len ls r))"
  using assms
  by (rule process_listings_invariant
        [where P = "\<lambda>s. length (lead_rows jid (db s)) = c + length (validLeads s)", rotated])
     (rule process_listing_rows_inv)

lemma process_listing_count_step:
  "processedCount (process_listing w jid criteria len l r)
   = processedCount r + (if completes w jid criteria l (db r) then 1 else 0)
   \<and> reported (process_listing w jid criteria len l r)
     = reported r @ (if completes w jid criteria l (db r)
                     then [listing_report len (processedCount r + 1)] else [])"
proof (cases "completes w jid criteria l (db r)")
  case True
  from process_listing_completes [OF True, of len] True show ?thesis by simp
next
  case False
  from process_listing_stops [OF False, of len] False show ?thesis by simp
qed

lemma process_listings_reported:
  "reported (process_listings w jid criteria len ls r)
   = reported r @ map (listing_report len)
       [processedCount r + 1..<processedCount (process_listings w jid criteria len ls r) + 1]
   \<and> processedCount r \<le> processedCount (process_listings w jid criteria len ls r)
   \<and> processedCount (process_listings w jid criteria len ls r)
       \<le> processedCount r + length ls"
proof (induction ls arbitrary: r)
  case Nil
  then show ?case by simp
next
  case (Cons l ls)
  let ?r = "process_listing w jid criteria len l r"
  let ?end = "processedCount (process_listings w jid criteria len ls ?r)"
  note step = process_listing_count_step [of w jid criteria len l r]
  note IH = Cons.IH [of ?r]
  show ?case
  proof (cases "completes w jid criteria l (db r)")
    case True
    with step have pc: "processedCount ?r = processedCount r + 1"
      and rep: "reported ?r = reported r @ [listing_report len (processedCount r + 1)]"
      by simp_all
    from IH pc have le: "processedCount r + 1 \<le> ?end" by simp
    then have "[processedCount r + 1..<?end + 1]
               = (processedCount r + 1) # [processedCount r + 2..<?end + 1]"
      by (subst upt_rec) simp
    with IH pc rep show ?thesis by simp
  next
    case False
    with step have "processedCount ?r = processedCount r" "reported ?r = reported r"
      by simp_all
    with IH show ?thesis by simp
  qed
qed

text \<open>
  Listings that the loop does not skip and whose values fit the columns: with the job's
  row in the store, every round reaches its end.
\<close>

lemma process_listings_sure:
  assumes "find_job jid (db r) \<noteq> None"
    and "\<forall>l \<in> set ls. \<not> skipped w criteria l \<and> varchar 255 (company l) \<noteq> None
                          \<and> lead_columns_fit w l"
  shows "processedCount (process_listings w jid criteria len ls r)
           = processedCount r + length ls
       \<and> length (validLeads (process_listings w jid criteria len ls r))
           = length (validLeads r) + length (filter (qualifies w criteria) ls)"
  using assms
proof (induction ls arbitrary: r)
  case Nil
  then show ?case by simp
next
  case (Cons l ls)
  let ?r = "process_listing w jid criteria len l r"
  from Cons.prems have l: "\<not> skipped w criteria l" "varchar 255 (company l) \<noteq> None"
    "lead_columns_fit w l"
    by simp_all
  from sure_accepts [OF Cons.prems(1) l(2,3)] have acc: "store_accepts w jid l (db r)" .
  with l(1) have "completes w jid criteria l (db r)" by (simp add: completes_def)
  from process_listing_completes [OF this, of len]
  have pc: "processedCount ?r = processedCount r + 1" by simp
  from acc have "persists w jid criteria l (db r) = qualifies w criteria l"
    by (simp add: persists_def)
  then have v: "length (validLeads ?r)
                = length (validLeads r) + (if qualifies w criteria l then 1 else 0)"
    by (simp add: process_listing_valid_count)
  from Cons.prems(1) have "find_job jid (db ?r) \<noteq> None"
    by (simp add: process_listing_job_exists)
  moreover from Cons.prems(2) have "\<forall>l \<in> set ls. \<not> skipped w criteria l
                          \<and> varchar 255 (company l) \<noteq> None \<and> lead_columns_fit w l"
    by simp
  ultimately have "processedCount (process_listings w jid criteria len ls ?r)
           = processedCount ?r + length ls
       \<and> length (validLeads (process_listings w jid criteria len ls ?r))
           = length (validLeads ?r) + length (filter (qualifies w criteria) ls)"
    by (rule Cons.IH)
  with pc v show ?case by simp
qed

lemma loop_states_last:
  "last (loop_states w jid criteria len ls r) = process_listings w jid criteria len ls r"
  by (induction ls arbitrary: r) (simp_all, (case_tac ls; simp))

lemma loop_states_all:
  assumes "\<And>l r. P r \<Longrightarrow> P (process_listing w jid criteria len l r)" and "P r"
  shows "\<forall>s \<in> set (loop_states w jid criteria len ls r). P s"
  using assms(2)
proof (induction ls arbitrary: r)
  case Nil
  then show ?case by simp
next
  case (Cons l ls)
  from Cons.prems have "P (process_listing w jid criteria len l r)" by (rule assms(1))
  then have "\<forall>s \<in> set (loop_states w jid criteria len ls
                          (process_listing w jid criteria len l r)). P s"
    by (rule Cons.IH)
  with Cons.prems show ?case by simp
qed

lemma loop_states_nth:
  "i < length ls \<Longrightarrow>
     loop_states w jid criteria len ls r ! Suc i
     = process_listing w jid criteria len (ls ! i) (loop_states w jid criteria len ls r ! i)"
proof (induction ls arbitrary: i r)
  case Nil
  then show ?case by simp
next
  case (Cons l ls)
  show ?case
  proof (cases i)
    case 0
    then show ?thesis by (cases ls) simp_all
  next
    case (Suc k)
    with Cons.prems have "k < length ls" by simp
    from Cons.IH [OF this, of "process_listing w jid criteria len l r"] Suc
    show ?thesis by simp
  qed
qed

lemma loop_states_length: "length (loop_states w jid criteria len ls r) = length ls + 1"
  by (induction ls arbitrary: r) simp_all

lemma loop_states_valid_sorted:
  "sorted (map (\<lambda>s. int (length (validLeads s))) (loop_states w jid criteria len ls r))"
proof (induction ls arbitrary: r)
  case Nil
  then show ?case by simp
next
  case (Cons l ls)
  let ?r = "process_listing w jid criteria len l r"
  have "length (validLeads r) \<le> length (validLeads ?r)"
    by (simp add: process_listing_valid_count)
  moreover have "\<forall>s \<in> set (loop_states w jid criteria len ls ?r).
                   length (validLeads ?r) \<le> length (validLeads s)"
    by (rule loop_states_all [where P = "\<lambda>s. length (validLeads ?r) \<le> length (validLeads s)"])
       (simp_all add: process_listing_valid_count)
  ultimately have "\<forall>s \<in> set (loop_states w jid criteria len ls ?r).
                   length (validLeads r) \<le> length (validLeads s)"
    by auto
  with Cons.IH [of ?r] show ?case by simp
qed

lemma sorted_le_last:
  fixes xs :: "int list"
  shows "sorted xs \<Longrightarrow> x \<in> set xs \<Longrightarrow> x \<le> last xs"
  by (induction xs) auto


section \<open>Export and completion\<close>

lemma mark_exported_leads:
  "leads (mark_exported t vl st)
   = map (\<lambda>l. if jobUrl l \<in> ld_jobUrl ` set vl
               then l\<lparr>exportedToSheets := True, exportedAt := Some t\<rparr> else l) (leads st)"
proof (induction vl arbitrary: st)
  case Nil
  then show ?case by simp
next
  case (Cons v vl)
  show ?case
    by (simp add: Cons.IH update_leads_by_jobUrl_def comp_def)
qed

lemma mark_exported_frame:
  "jobs (mark_exported t vl st) = jobs st"
  "companies (mark_exported t vl st) = companies st"
  by (induction vl arbitrary: st) (simp_all add: update_leads_by_jobUrl_def)

lemma mark_exported_rows:
  "length (lead_rows jid (mark_exported t vl st)) = length (lead_rows jid st)"
proof -
  let ?g = "\<lambda>l. if jobUrl l \<in> ld_jobUrl ` set vl
               then l\<lparr>exportedToSheets := True, exportedAt := Some t\<rparr> else l"
  have "filter (\<lambda>l. jobId l = jid) (map ?g (leads st))
        = map ?g (filter (\<lambda>l. jobId l = jid) (leads st))"
    by (induction "leads st" arbitrary: st) (simp_all add: filter_map comp_def)
  then show ?thesis by (simp add: lead_rows_def mark_exported_leads)
qed

lemma mark_exported_unmarked:
  "map unmarked (leads (mark_exported t vl st)) = map unmarked (leads st)"
  by (simp add: mark_exported_leads unmarked_def)

lemma export_step_none:
  "validLeads r = [] \<Longrightarrow> export_step w r = (None, r)"
  by (simp add: export_step_def)

lemma export_step_ok:
  "validLeads r \<noteq> [] \<Longrightarrow> sheets w = Sheets_ok \<Longrightarrow>
     export_step w r
     = (None, r\<lparr>reported := reported r @ [90],
                 db := mark_exported (now w) (validLeads r) (db r)\<rparr>)"
  by (simp add: export_step_def Let_def)

lemma export_step_throws:
  "validLeads r \<noteq> [] \<Longrightarrow> sheets w \<noteq> Sheets_ok \<Longrightarrow>
     \<exists>msg. export_step w r = (Some msg, r\<lparr>reported := reported r @ [90]\<rparr>)"
  by (cases "sheets w") (simp_all add: export_step_def Let_def)

lemma export_step_frame:
  assumes "export_step w r = (thrown, r')"
  shows "validLeads r' = validLeads r \<and> jobs (db r') = jobs (db r)
       \<and> length (lead_rows jid (db r')) = length (lead_rows jid (db r))
       \<and> map unmarked (leads (db r')) = map unmarked (leads (db r))"
proof (cases "validLeads r = []")
  case True
  with assms show ?thesis by (simp add: export_step_none)
next
  case False
  show ?thesis
  proof (cases "sheets w = Sheets_ok")
    case True
    with False assms show ?thesis
      by (auto simp: export_step_ok mark_exported_frame mark_exported_rows
            mark_exported_unmarked)
  next
    case no: False
    with False assms export_step_throws [OF False no] show ?thesis by auto
  qed
qed

lemma process_run:
  assumes "launch_error w = None" and "login_ok w"
  shows "process w data st
         = (case fst (export_step w (after_listings w data st)) of
              Some msg \<Rightarrow>
                (Inl msg, fail_job w (sj_jobId data) msg
                            (snd (export_step w (after_listings w data st))))
            | None \<Rightarrow>
                finish_job w (sj_jobId data) (length (discovered w data st))
                  (snd (export_step w (after_listings w data st))))"
  unfolding after_listings_def discovered_def after_discovery_def
  using assms by (simp add: process_def Let_def split_def)

lemma process_not_started:
  assumes "launch_error w \<noteq> None \<or> \<not> login_ok w"
  shows "\<exists>msg. process w data st
           = (Inl msg, fail_job w (sj_jobId data) msg (start_worker w (sj_jobId data) st))"
  using assms by (cases "launch_error w") (auto simp: process_def Let_def)

section \<open>The run as a whole\<close>

lemma start_worker_frame:
  "validLeads (start_worker w jid st) = []"
  "reported (start_worker w jid st) = []"
  "processedCount (start_worker w jid st) = 0"
  "leads (db (start_worker w jid st)) = leads st"
  "counter_of k (db (start_worker w jid st)) = counter_of k st"
  "lead_rows k (db (start_worker w jid st)) = lead_rows k st"
  "companies (db (start_worker w jid st)) = companies st"
  "(find_job k (db (start_worker w jid st)) = None) = (find_job k st = None)"
  by (simp_all add: start_worker_def update_job_frame counter_update_same lead_rows_def
        find_job_exists_update)

lemma after_discovery_frame:
  "validLeads (after_discovery w data st) = []"
  "processedCount (after_discovery w data st) = 0"
  "leads (db (after_discovery w data st)) = leads st"
  "counter_of k (db (after_discovery w data st)) = counter_of k st"
  "lead_rows k (db (after_discovery w data st)) = lead_rows k st"
  "companies (db (after_discovery w data st)) = companies st"
  "(find_job k (db (after_discovery w data st)) = None) = (find_job k st = None)"
  using discover_frame [of w "sj_jobId data" "sj_searchCriteria data"
          "start_worker w (sj_jobId data) st" k]
    discover_job_exists [of k w "sj_jobId data" "sj_searchCriteria data"
          "start_worker w (sj_jobId data) st"]
  by (simp_all add: after_discovery_def start_worker_frame lead_rows_def)

lemma after_listings_counter_inv:
  assumes "counter_of (sj_jobId data) st = Some 0"
  shows "counter_of (sj_jobId data) (db (after_listings w data st))
         = Some (int (length (validLeads (after_listings w data st))))"
  unfolding after_listings_def
  by (rule process_listings_counter_inv) (simp add: after_discovery_frame assms)

lemma after_listings_rows_inv:
  "length (lead_rows (sj_jobId data) (db (after_listings w data st)))
   = length (lead_rows (sj_jobId data) st) + length (validLeads (after_listings w data st))"
  unfolding after_listings_def
  by (rule process_listings_rows_inv) (simp add: after_discovery_frame)

lemma finish_job_frame:
  "leads (db (snd (finish_job w jid n r))) = leads (db r)"
  "validLeads (snd (finish_job w jid n r)) = validLeads r"
  "counter_of k (db (snd (finish_job w jid n r))) = counter_of k (db r)"
  "lead_rows k (db (snd (finish_job w jid n r))) = lead_rows k (db r)"
  "reported (snd (finish_job w jid n r)) = reported r @ [100]"
  "map_option status (find_job jid (db (snd (finish_job w jid n r))))
     = map_option (\<lambda>j. Completed) (find_job jid (db r))"
  "map_option progress (find_job jid (db (snd (finish_job w jid n r))))
     = map_option (\<lambda>j. 100) (find_job jid (db r))"
  by (auto simp: finish_job_def Let_def update_job_frame counter_update_same lead_rows_def
        find_job_update option.map_comp comp_def
      intro!: option.map_cong dest: find_job_id)

lemma process_Inr:
  assumes "process w data st = (Inr res, r)"
  shows "launch_error w = None \<and> login_ok w
       \<and> fst (export_step w (after_listings w data st)) = None
       \<and> r = snd (finish_job w (sj_jobId data) (length (discovered w data st))
                    (snd (export_step w (after_listings w data st))))"
proof -
  have ok: "launch_error w = None \<and> login_ok w"
  proof (rule ccontr)
    assume "\<not> (launch_error w = None \<and> login_ok w)"
    then have "launch_error w \<noteq> None \<or> \<not> login_ok w" by simp
    from process_not_started [OF this, of data st] assms show False by auto
  qed
  then have run: "process w data st
         = (case fst (export_step w (after_listings w data st)) of
              Some msg \<Rightarrow>
                (Inl msg, fail_job w (sj_jobId data) msg
                            (snd (export_step w (after_listings w data st))))
            | None \<Rightarrow>
                finish_job w (sj_jobId data) (length (discovered w data st))
                  (snd (export_step w (after_listings w data st))))"
    by (intro process_run) simp_all
  show ?thesis
  proof (cases "fst (export_step w (after_listings w data st))")
    case None
    with run assms
    have "finish_job w (sj_jobId data) (length (discovered w data st))
            (snd (export_step w (after_listings w data st))) = (Inr res, r)"
      by simp
    then have "r = snd (finish_job w (sj_jobId data) (length (discovered w data st))
                          (snd (export_step w (after_listings w data st))))"
      by simp
    with None ok show ?thesis by simp
  next
    case (Some msg)
    with run assms show ?thesis by simp
  qed
qed

lemma process_completes:
  assumes "launch_error w = None" and "login_ok w" and "sheets w = Sheets_ok"
  shows "process w data st
         = finish_job w (sj_jobId data) (length (discovered w data st))
             (snd (export_step w (after_listings w data st)))"
proof -
  have "fst (export_step w (after_listings w data st)) = None"
    using assms(3)
    by (cases "validLeads (after_listings w data st) = []")
       (simp_all add: export_step_none export_step_ok)
  with process_run [OF assms(1,2), of data st] show ?thesis by simp
qed

lemma finish_job_Inr: "\<exists>res. fst (finish_job w jid n r) = Inr res"
  by (simp add: finish_job_def Let_def)

lemma run_final_counts:
  assumes "process w data st = (Inr res, r)"
  shows "counter_of (sj_jobId data) (db r)
           = counter_of (sj_jobId data) (db (after_listings w data st))
       \<and> length (lead_rows (sj_jobId data) (db r))
           = length (lead_rows (sj_jobId data) (db (after_listings w data st)))"
proof -
  let ?e = "export_step w (after_listings w data st)"
  from process_Inr [OF assms]
  have r: "r = snd (finish_job w (sj_jobId data) (length (discovered w data st)) (snd ?e))"
    by simp
  have e: "?e = (fst ?e, snd ?e)" by simp
  from export_step_frame [OF e, of "sj_jobId data"]
  have "jobs (db (snd ?e)) = jobs (db (after_listings w data st))"
    and rows: "length (lead_rows (sj_jobId data) (db (snd ?e)))
         = length (lead_rows (sj_jobId data) (db (after_listings w data st)))"
    by simp_all
  then have "counter_of (sj_jobId data) (db (snd ?e))
             = counter_of (sj_jobId data) (db (after_listings w data st))"
    by (simp add: counter_of_def find_job_def)
  with rows show ?thesis unfolding r by (simp add: finish_job_frame)
qed

lemma completed_row:
  assumes "process w data st = (Inr res, r)"
    and "find_job (sj_jobId data) (db r) = Some j"
  shows "status j = Completed \<and> progress j = 100"
proof -
  let ?r4 = "snd (export_step w (after_listings w data st))"
  from process_Inr [OF assms(1)]
  have r: "r = snd (finish_job w (sj_jobId data) (length (discovered w data st)) ?r4)"
    by simp
  have "map_option status (find_job (sj_jobId data) (db r))
          = map_option (\<lambda>j. Completed) (find_job (sj_jobId data) (db ?r4))"
    and "map_option progress (find_job (sj_jobId data) (db r))
          = map_option (\<lambda>j. 100) (find_job (sj_jobId data) (db ?r4))"
    unfolding r by (rule finish_job_frame)+
  with assms(2) show ?thesis
    by (cases "find_job (sj_jobId data) (db ?r4)") simp_all
qed

lemma run_states_last:
  "last (run_states w data st) = after_listings w data st"
  by (simp add: run_states_def after_listings_def loop_states_last)

lemma run_states_first: "run_states w data st ! 0 = after_discovery w data st"
  by (cases "discovered w data st") (simp_all add: run_states_def)

lemma run_leads_unmarked:
  assumes "launch_error w = None" and "login_ok w"
  shows "map unmarked (leads (db (snd (process w data st))))
         = map unmarked (leads (db (after_listings w data st)))"
proof -
  let ?e = "export_step w (after_listings w data st)"
  have e: "?e = (fst ?e, snd ?e)" by simp
  from export_step_frame [OF e, of "sj_jobId data"]
  have same: "map unmarked (leads (db (snd ?e)))
              = map unmarked (leads (db (after_listings w data st)))"
    by simp
  note run = process_run [OF assms, of data st]
  show ?thesis
  proof (cases "fst ?e")
    case None
    with run same show ?thesis by (simp add: finish_job_frame)
  next
    case (Some msg)
    with run same show ?thesis by (simp add: fail_job_def update_job_frame)
  qed
qed

section \<open>The runs of the examples\<close>

lemma world_of_fields:
  "launch_error (world_of pages team) = None"
  "login_ok (world_of pages team)"
  "fetch_page (world_of pages team) = pages"
  "job_description (world_of pages team) = (\<lambda>u. [])"
  "hiring_team (world_of pages team) = team"
  "sheets (world_of pages team) = Sheets_ok"
  "now (world_of pages team) = 3"
  "toLowerCase (world_of pages team) = ascii_toLowerCase"
  by (simp_all add: world_of_def)

lemma enhancedJob_fields:
  "title (enhancedJob w l) = title l"
  "company (enhancedJob w l) = company l"
  "salary (enhancedJob w l) = salary l"
  "description (enhancedJob w l) = Some (job_description w (url l))"
  "hiringManager (enhancedJob w l) = extractHiringManagerInfo w (url l)"
  by (simp_all add: enhancedJob_def extractJobDescription_def)

lemma card_listing:
  "title (listing_of_card (card_of t c u)) = t"
  "company (listing_of_card (card_of t c u)) = c"
  "location (listing_of_card (card_of t c u)) = js ''London''"
  "url (listing_of_card (card_of t c u)) = u"
  "salary (listing_of_card (card_of t c u)) = None"
  by (simp_all add: listing_of_card_def card_of_def)

lemma not_agency_acme: "\<not> isRecruitmentAgency (map ascii_lower) (js ''Acme Bank'')"
  by (simp add: isRecruitmentAgency_def RECRUITMENT_AGENCY_KEYWORDS_def ascii_lower_def)

lemma agency_hays: "isRecruitmentAgency (map ascii_lower) (js ''Hays Recruitment'')"
  by (simp add: isRecruitmentAgency_def RECRUITMENT_AGENCY_KEYWORDS_def ascii_lower_def)

lemma plain_title:
  "\<not> some (str_includes (map ascii_lower (js ''Accountant''))) qualityKeywords"
  by (simp add: qualityKeywords_def ascii_lower_def)

text \<open>
  The card of the examples, an accountant's post at Acme Bank: in every world whose
  runtime lowers ASCII text as ECMAScript prescribes and in which the page of the posting
  shows no description and no hiring team, the loop scores it 50 + 30 = 80.
\<close>

lemma acme_score:
  assumes "lowers_ascii (toLowerCase w)" and "hiring_team w u = None"
    and "job_description w u = []"
  shows "calculateLeadScore (toLowerCase w)
           (enhancedJob w (listing_of_card (card_of (js ''Accountant'') (js ''Acme Bank'') u)))
         = 80"
proof -
  let ?job = "enhancedJob w (listing_of_card (card_of (js ''Accountant'') (js ''Acme Bank'') u))"
  have "is_ascii (company ?job)" "is_ascii (title ?job)"
    by (simp_all add: enhancedJob_fields card_listing is_ascii_def)
  from calculateLeadScore_ascii [OF assms(1) this]
  have "calculateLeadScore (toLowerCase w) ?job = calculateLeadScore (map ascii_lower) ?job" .
  also have "\<dots> = 80"
    using not_agency_acme plain_title assms(2,3)
    by (simp add: calculateLeadScore_def rawLeadScore_def enhancedJob_fields card_listing
          extractHiringManagerInfo_def)
  finally show ?thesis .
qed

lemma acme_not_agency:
  assumes "lowers_ascii lc"
  shows "\<not> isRecruitmentAgency lc (js ''Acme Bank'')"
proof -
  have "is_ascii (js ''Acme Bank'')" by (simp add: is_ascii_def)
  from isRecruitmentAgency_ascii [OF assms this] not_agency_acme show ?thesis by simp
qed

lemma acme_qualifies:
  assumes "lowers_ascii (toLowerCase w)" and "hiring_team w u = None"
    and "job_description w u = []"
  shows "qualifies w criteria (listing_of_card (card_of (js ''Accountant'') (js ''Acme Bank'') u))"
  using acme_score [OF assms] acme_not_agency [OF assms(1)]
  by (simp add: qualifies_def skipped_def card_listing)

lemma acme_fits:
  assumes "hiring_team w u = None" and "varchar 500 u \<noteq> None"
  shows "\<not> skipped w (criteria_of None m)
             (listing_of_card (card_of (js ''Accountant'') (js ''Acme Bank'') u))
       \<and> varchar 255 (company (listing_of_card (card_of (js ''Accountant'') (js ''Acme Bank'') u)))
           \<noteq> None
       \<and> lead_columns_fit w (listing_of_card (card_of (js ''Accountant'') (js ''Acme Bank'') u))"
proof -
  have "varchar 255 (js ''Acme Bank'') = Some (js ''Acme Bank'')"
    "varchar 255 (js ''Accountant'') = Some (js ''Accountant'')"
    "varchar 255 (js ''London'') = Some (js ''London'')"
    by (rule varchar_ascii; simp add: is_ascii_def)+
  with assms show ?thesis
    by (simp add: lead_columns_fit_def card_listing extractHiringManagerInfo_def skipped_def
          criteria_of_def)
qed

lemma varchar_u1: "varchar 500 (js ''u1'') = Some (js ''u1'')"
  by (rule varchar_ascii) (simp_all add: is_ascii_def)

lemma discovered_single_page:
  assumes "fetch_page w = single_page cards"
  shows "discovered w (job_data jid (criteria_of x None)) st = map listing_of_card cards"
proof -
  have "[0..<nat \<lceil>5 :: real\<rceil>] = 0 # [1..<5]" by (simp add: upt_conv_Cons)
  then show ?thesis
    by (simp add: discovered_def discover_listings effectiveMaxPages_def criteria_of_def
          job_data_def assms single_page_def)
qed

lemma run_completes:
  assumes "launch_error w = None" and "login_ok w" and "sheets w = Sheets_ok"
  shows "\<exists>res. process w data st = (Inr res, snd (process w data st))"
  using process_completes [OF assms, of data st]
    finish_job_Inr [of w "sj_jobId data" "length (discovered w data st)"
                      "snd (export_step w (after_listings w data st))"]
  by (metis prod.collapse)

text \<open>
  A run that discovers the card of the examples alone, on a store that holds the row of
  the job: the loop stores one lead for it, with the score 80, and writes the counter.
\<close>

lemma single_acme_round:
  assumes w: "lowers_ascii (toLowerCase w)" "hiring_team w u = None" "job_description w u = []"
    and u: "varchar 500 u = Some u"
    and data: "sj_jobId data = jid" "sj_searchCriteria data = criteria_of None m"
    and disc: "discovered w data st
               = [listing_of_card (card_of (js ''Accountant'') (js ''Acme Bank'') u)]"
    and job: "find_job jid st \<noteq> None"
  shows "\<exists>row ld. leads (db (after_listings w data st)) = leads st @ [row]
           \<and> validLeads (after_listings w data st) = [ld]
           \<and> jobId row = jid \<and> jobUrl row = u \<and> leadScore row = 80 \<and> isQualified row
           \<and> \<not> exportedToSheets row \<and> ld_jobUrl ld = u"
    and "counter_of jid (db (after_listings w data st)) = map_option (\<lambda>c. 1) (counter_of jid st)"
    and "processedCount (after_listings w data st) = 1"
    and "reported (after_listings w data st)
         = reported (after_discovery w data st) @ [listing_report 1 1]"
proof -
  let ?l = "listing_of_card (card_of (js ''Accountant'') (js ''Acme Bank'') u)"
  let ?c = "criteria_of None m"
  let ?r2 = "after_discovery w data st"
  have r3: "after_listings w data st = process_listing w jid ?c 1 ?l ?r2"
    by (simp add: after_listings_def disc data)
  have q: "qualifies w ?c ?l" using w by (rule acme_qualifies)
  from u have "varchar 500 u \<noteq> None" by simp
  from acme_fits [OF w(2) this, of m]
  have fits: "\<not> skipped w ?c ?l" "varchar 255 (company ?l) \<noteq> None" "lead_columns_fit w ?l"
    by simp_all
  from job have "find_job jid (db ?r2) \<noteq> None" by (simp add: after_discovery_frame)
  from sure_accepts [OF this fits(2,3)] have acc: "store_accepts w jid ?l (db ?r2)" .
  with q have p: "persists w jid ?c ?l (db ?r2)" by (simp add: persists_def)
  from acc fits(1) have c: "completes w jid ?c ?l (db ?r2)" by (simp add: completes_def)
  from process_listing_persists [OF p, of 1] obtain row ld where
    eff: "leads (db (after_listings w data st)) = leads (db ?r2) @ [row]"
      "validLeads (after_listings w data st) = validLeads ?r2 @ [ld]"
      "jobId row = jid" "varchar 500 (url ?l) = Some (jobUrl row)"
      "leadScore row
       = calculateLeadScore (toLowerCase w) (enhancedJob w ?l)"
      "isQualified row" "\<not> exportedToSheets row" "ld_jobUrl ld = jobUrl row"
    unfolding r3 by blast
  from eff(4) u have url: "jobUrl row = u" by (simp add: card_listing)
  from eff(5) acme_score [OF w] have sc: "leadScore row = 80" by simp
  from eff url sc
  show "\<exists>row ld. leads (db (after_listings w data st)) = leads st @ [row]
           \<and> validLeads (after_listings w data st) = [ld]
           \<and> jobId row = jid \<and> jobUrl row = u \<and> leadScore row = 80 \<and> isQualified row
           \<and> \<not> exportedToSheets row \<and> ld_jobUrl ld = u"
    by (simp add: after_discovery_frame)
  from process_listing_completes [OF c, of 1] eff(2)
  show "counter_of jid (db (after_listings w data st)) = map_option (\<lambda>c. 1) (counter_of jid st)"
    and "processedCount (after_listings w data st) = 1"
    and "reported (after_listings w data st)
         = reported (after_discovery w data st) @ [listing_report 1 1]"
    unfolding r3 [symmetric] by (simp_all add: after_discovery_frame)
qed

section \<open>The claim about pagination\<close>

lemma export_step_Some:
  assumes "fst (export_step w r) = Some msg"
  shows "validLeads r \<noteq> [] \<and> sheets w \<noteq> Sheets_ok"
  using assms by (cases "sheets w") (auto simp: export_step_def Let_def split: if_splits)

lemma finish_job_result:
  "fst (finish_job w jid n r)
   = Inr \<lparr>res_totalJobsFound = n, res_leadsGenerated = length (validLeads r)\<rparr>"
  by (simp add: finish_job_def Let_def)

text \<open>
  C3, as the code has it. A page whose fetch throws is caught and logged, adds no
  listing, and does not stop pagination: the pages are requested in order up to
  \<open>maxPages\<close>, or up to the first page that is read and shows no button \<open>Next\<close>; so the
  page after a failed one is requested too while its index is below \<open>maxPages\<close>.
  \<open>searchJobs\<close> returns the listings of all requested pages that could be read. In a
  run of the worker in which the browser starts and the login succeeds, these listings
  are the ones the listing loop scores; the job fails only where the export of the leads
  throws, and completes, with the number of these listings as its result, where the
  spreadsheet service works.
\<close>

theorem searchJobs_continues_after_fetch_error:
  "fst (snd (searchJobs fetch criteria onP s))
     = pages_requested fetch [0..<nat \<lceil>effectiveMaxPages criteria\<rceil>]
   \<and> fst (searchJobs fetch criteria onP s)
     = concat (map (page_listings fetch)
                 (pages_requested fetch [0..<nat \<lceil>effectiveMaxPages criteria\<rceil>]))
   \<and> (\<forall>p. p \<in> set (pages_requested fetch [0..<nat \<lceil>effectiveMaxPages criteria\<rceil>])
            \<and> fetch p = Fetch_throws \<and> of_nat (p + 1) < effectiveMaxPages criteria
          \<longrightarrow> p + 1 \<in> set (pages_requested fetch [0..<nat \<lceil>effectiveMaxPages criteria\<rceil>]))
   \<and> (launch_error w = None \<and> login_ok w
        \<longrightarrow> pages_visited w data st
              = pages_requested (fetch_page w)
                  [0..<nat \<lceil>effectiveMaxPages (sj_searchCriteria data)\<rceil>]
            \<and> discovered w data st
              = concat (map (page_listings (fetch_page w)) (pages_visited w data st))
            \<and> process w data st
              = (case fst (export_step w
                             (process_listings w (sj_jobId data) (sj_searchCriteria data)
                                (length (discovered w data st)) (discovered w data st)
                                (after_discovery w data st))) of
                   Some msg \<Rightarrow>
                     (Inl msg,
                      fail_job w (sj_jobId data) msg
                        (snd (export_step w
                                (process_listings w (sj_jobId data) (sj_searchCriteria data)
                                   (length (discovered w data st)) (discovered w data st)
                                   (after_discovery w data st)))))
                 | None \<Rightarrow>
                     finish_job w (sj_jobId data) (length (discovered w data st))
                       (snd (export_step w
                               (process_listings w (sj_jobId data) (sj_searchCriteria data)
                                  (length (discovered w data st)) (discovered w data st)
                                  (after_discovery w data st)))))
            \<and> (\<forall>msg. fst (process w data st) = Inl msg
                   \<longrightarrow> sheets w \<noteq> Sheets_ok
                       \<and> validLeads (after_listings w data st) \<noteq> [])
            \<and> (sheets w = Sheets_ok
                 \<longrightarrow> (\<exists>res. fst (process w data st) = Inr res
                        \<and> res_totalJobsFound res = length (discovered w data st))))"
proof (intro conjI impI)
  let ?n = "nat \<lceil>effectiveMaxPages criteria\<rceil>"
  from searchLoop_trace [of fetch onP "effectiveMaxPages criteria" 0 "[]" "[]" s]
  show "fst (snd (searchJobs fetch criteria onP s)) = pages_requested fetch [0..<?n]"
    and "fst (searchJobs fetch criteria onP s)
         = concat (map (page_listings fetch) (pages_requested fetch [0..<?n]))"
    by (simp_all add: searchJobs_def)
  show "\<forall>p. p \<in> set (pages_requested fetch [0..<?n])
            \<and> fetch p = Fetch_throws \<and> of_nat (p + 1) < effectiveMaxPages criteria
          \<longrightarrow> p + 1 \<in> set (pages_requested fetch [0..<?n])"
  proof (intro allI impI)
    fix p
    assume a: "p \<in> set (pages_requested fetch [0..<?n])
            \<and> fetch p = Fetch_throws \<and> of_nat (p + 1) < effectiveMaxPages criteria"
    then have "p + 1 < ?n" by (intro page_below_ceiling) simp
    moreover from a have "\<not> last_page fetch p" by simp
    ultimately show "p + 1 \<in> set (pages_requested fetch [0..<?n])"
      using a by (intro pages_requested_next) simp_all
  qed
next
  assume ok: "launch_error w = None \<and> login_ok w"
  then have started: "launch_error w = None" "login_ok w" by simp_all
  let ?E = "export_step w (after_listings w data st)"
  show v: "pages_visited w data st
           = pages_requested (fetch_page w)
               [0..<nat \<lceil>effectiveMaxPages (sj_searchCriteria data)\<rceil>]"
    by (simp add: pages_visited_def discover_visited)
  show "discovered w data st
        = concat (map (page_listings (fetch_page w)) (pages_visited w data st))"
    unfolding v by (simp add: discovered_def discover_listings)
  note run = process_run [OF started, of data st]
  from run show "process w data st
              = (case fst (export_step w
                             (process_listings w (sj_jobId data) (sj_searchCriteria data)
                                (length (discovered w data st)) (discovered w data st)
                                (after_discovery w data st))) of
                   Some msg \<Rightarrow>
                     (Inl msg,
                      fail_job w (sj_jobId data) msg
                        (snd (export_step w
                                (process_listings w (sj_jobId data) (sj_searchCriteria data)
                                   (length (discovered w data st)) (discovered w data st)
                                   (after_discovery w data st)))))
                 | None \<Rightarrow>
                     finish_job w (sj_jobId data) (length (discovered w data st))
                       (snd (export_step w
                               (process_listings w (sj_jobId data) (sj_searchCriteria data)
                                  (length (discovered w data st)) (discovered w data st)
                                  (after_discovery w data st)))))"
    unfolding after_listings_def .
  show "\<forall>msg. fst (process w data st) = Inl msg
                   \<longrightarrow> sheets w \<noteq> Sheets_ok
                       \<and> validLeads (after_listings w data st) \<noteq> []"
  proof (intro allI impI)
    fix msg
    assume failed: "fst (process w data st) = Inl msg"
    show "sheets w \<noteq> Sheets_ok \<and> validLeads (after_listings w data st) \<noteq> []"
    proof (cases "fst ?E")
      case None
      with run failed show ?thesis by (simp add: finish_job_result)
    next
      case (Some m)
      from export_step_Some [OF this] show ?thesis by simp
    qed
  qed
  show "\<exists>res. fst (process w data st) = Inr res
                        \<and> res_totalJobsFound res = length (discovered w data st)"
    if "sheets w = Sheets_ok"
    using process_completes [OF started that, of data st] by (simp add: finish_job_result)
qed

text \<open>
  C3 as stated fails: with \<open>maxPages = 2\<close>, the fetch of the first page throws and the
  second page is requested all the same.
\<close>

theorem searchJobs_fetches_after_failed_page:
  "flaky_pages 0 = Fetch_throws
   \<and> searchJobs flaky_pages (criteria_of None (Some 2)) (\<lambda>p s. s) (0 :: nat)
     = ([listing_of_card (card_of (js ''Accountant'') (js ''Acme Bank'')
                            (js ''https://example.org/jobs/1''))],
        [0, 1], 0)"
  by (simp add: searchJobs_def searchLoop.simps effectiveMaxPages_def criteria_of_def
        flaky_pages_def)

theorem searchJobs_continues_after_fetch_error_witness:
  "1 \<in> set (pages_visited (world_of flaky_pages no_team)
               (job_data (js ''job-1'') (criteria_of None (Some 2)))
               (store_of [job_row (js ''job-1'') Pending (criteria_of None (Some 2))]))
   \<and> (\<exists>res. fst (process (world_of flaky_pages no_team)
                    (job_data (js ''job-1'') (criteria_of None (Some 2)))
                    (store_of [job_row (js ''job-1'') Pending (criteria_of None (Some 2))]))
             = Inr res
           \<and> res_totalJobsFound res = 1)
   \<and> map (\<lambda>x. (jobId x, jobUrl x, leadScore x))
       (leads (db (snd (process (world_of flaky_pages no_team)
                          (job_data (js ''job-1'') (criteria_of None (Some 2)))
                          (store_of [job_row (js ''job-1'') Pending
                                       (criteria_of None (Some 2))])))))
     = [(js ''job-1'', js ''https://example.org/jobs/1'', 80)]"
proof -
  define w where "w = world_of flaky_pages no_team"
  define d where "d = job_data (js ''job-1'') (criteria_of None (Some 2))"
  define st where "st = store_of [job_row (js ''job-1'') Pending (criteria_of None (Some 2))]"
  define u where "u = js ''https://example.org/jobs/1''"
  have wf: "launch_error w = None" "login_ok w" "sheets w = Sheets_ok"
    "fetch_page w = flaky_pages" "lowers_ascii (toLowerCase w)" "hiring_team w u = None"
    "job_description w u = []"
    by (simp_all add: w_def world_of_fields no_team_def lowers_ascii_example)
  have data: "sj_jobId d = js ''job-1''" "sj_searchCriteria d = criteria_of None (Some 2)"
    by (simp_all add: d_def job_data_def)
  have eff: "effectiveMaxPages (criteria_of None (Some 2)) = 2"
    by (simp add: effectiveMaxPages_def criteria_of_def)
  have upt: "[0..<nat \<lceil>2 :: real\<rceil>] = [0, 1]" by (simp add: upt_conv_Cons)
  have req: "pages_requested flaky_pages [0, 1] = [0, 1]"
    by (simp add: flaky_pages_def)
  from searchJobs_continues_after_fetch_error
         [of flaky_pages "criteria_of None (Some 2)" "\<lambda>p s. s" "0 :: nat" w d st] wf(1-3)
  have visited: "pages_visited w d st = pages_requested (fetch_page w) [0..<nat \<lceil>2 :: real\<rceil>]"
    and disc: "discovered w d st
               = concat (map (page_listings (fetch_page w)) (pages_visited w d st))"
    and fin: "\<exists>res. fst (process w d st) = Inr res
                 \<and> res_totalJobsFound res = length (discovered w d st)"
    unfolding data eff by blast+
  from visited have v: "pages_visited w d st = [0, 1]"
    unfolding upt wf(4) req .
  from disc have ls: "discovered w d st
                      = [listing_of_card (card_of (js ''Accountant'') (js ''Acme Bank'') u)]"
    unfolding v wf(4) by (simp add: flaky_pages_def u_def)
  have fit: "varchar 500 u = Some u"
    unfolding u_def by (rule varchar_ascii) (simp_all add: is_ascii_def)
  have job: "find_job (js ''job-1'') st \<noteq> None"
    by (simp add: st_def find_job_def store_of_def job_row_def)
  from single_acme_round(1) [OF wf(5-7) fit data ls job]
  obtain row where rows: "leads (db (after_listings w d st)) = leads st @ [row]"
    and row: "jobId row = js ''job-1''" "jobUrl row = u" "leadScore row = 80"
    by blast
  have "leads st = []" by (simp add: st_def store_of_def)
  with rows have only: "leads (db (after_listings w d st)) = [row]" by simp
  have proj: "(\<lambda>x. (jobId x, jobUrl x, leadScore x))
              = (\<lambda>x. (jobId x, jobUrl x, leadScore x)) \<circ> unmarked"
    by (rule ext) (simp add: unmarked_def)
  have "map (\<lambda>x. (jobId x, jobUrl x, leadScore x)) (leads (db (snd (process w d st))))
        = map (\<lambda>x. (jobId x, jobUrl x, leadScore x))
            (map unmarked (leads (db (snd (process w d st)))))"
    by (subst proj) (simp only: map_map)
  also have "\<dots> = map (\<lambda>x. (jobId x, jobUrl x, leadScore x))
                     (map unmarked (leads (db (after_listings w d st))))"
    by (simp only: run_leads_unmarked [OF wf(1,2)])
  also have "\<dots> = [(js ''job-1'', u, 80)]"
    unfolding only by (simp add: row unmarked_def)
  finally have leads: "map (\<lambda>x. (jobId x, jobUrl x, leadScore x))
                         (leads (db (snd (process w d st))))
                       = [(js ''job-1'', u, 80)]" .
  from v have "1 \<in> set (pages_visited w d st)" by simp
  with fin ls leads show ?thesis
    unfolding w_def d_def st_def u_def by simp
qed

section \<open>The claims about qualification\<close>

lemma bare_agency_score:
  assumes "isRecruitmentAgency (toLowerCase w) (company l)" and "hiring_team w (url l) = None"
    and "salary l = None" and "length (job_description w (url l)) \<le> 200"
    and "\<not> (\<exists>kw. kw \<in> set qualityKeywords \<and> sublist kw (toLowerCase w (title l)))"
  shows "calculateLeadScore (toLowerCase w) (enhancedJob w l) = 30"
proof -
  from assms have "spec_raw_score (toLowerCase w) (enhancedJob w l) = 30"
    by (simp add: spec_raw_score_def enhancedJob_fields extractHiringManagerInfo_def
          present_def)
  then show ?thesis
    by (simp add: calculateLeadScore_spec spec_score_def clamp_def)
qed

text \<open>
  C2, as the code has it. In a run, the round of the loop for a discovered listing adds
  a Lead row exactly when the score it computes for the listing is above 40 (a listing
  the round skips has no computed score) and the database accepts the rows of the
  listing: the values of the lead fit the columns of schema.ts, the row of the job exists
  and the company is known or its name fits. The row then belongs to the job, carries
  the score and is qualified, and its posting address is what the column stores for the
  address of the listing.
  Otherwise the round adds no Lead row and no entry of \<open>validLeads\<close>; for a listing not
  scored above 40 it adds no company either. In particular a listing of an agency without
  any bonus has the score 30 and adds no Lead row. The Lead rows after the run are those
  after the last round, up to the export marks.
\<close>

theorem lead_persisted_iff_score_above_40:
  assumes i: "i < length (discovered w data st)"
    and l: "l = discovered w data st ! i"
    and r: "r = run_states w data st ! i"
    and r': "r' = run_states w data st ! Suc i"
  shows "r' = process_listing w (sj_jobId data) (sj_searchCriteria data)
                (length (discovered w data st)) l r
       \<and> ((\<exists>row. leads (db r') = leads (db r) @ [row])
            \<longleftrightarrow> (\<exists>sc. computed_score w (sj_searchCriteria data) l = Some sc \<and> 40 < sc)
                \<and> store_accepts w (sj_jobId data) l (db r))
       \<and> (\<forall>sc. computed_score w (sj_searchCriteria data) l = Some sc \<and> 40 < sc
                \<and> store_accepts w (sj_jobId data) l (db r)
              \<longrightarrow> (\<exists>row. leads (db r') = leads (db r) @ [row] \<and> jobId row = sj_jobId data
                     \<and> varchar 500 (url l) = Some (jobUrl row) \<and> leadScore row = sc
                     \<and> isQualified row))
       \<and> (\<not> ((\<exists>sc. computed_score w (sj_searchCriteria data) l = Some sc \<and> 40 < sc)
              \<and> store_accepts w (sj_jobId data) l (db r))
              \<longrightarrow> leads (db r') = leads (db r) \<and> validLeads r' = validLeads r)
       \<and> (\<not> (\<exists>sc. computed_score w (sj_searchCriteria data) l = Some sc \<and> 40 < sc)
              \<longrightarrow> companies (db r') = companies (db r))
       \<and> (isRecruitmentAgency (toLowerCase w) (company l) \<and> hiring_team w (url l) = None
            \<and> salary l = None \<and> length (job_description w (url l)) \<le> 200
            \<and> \<not> (\<exists>kw. kw \<in> set qualityKeywords \<and> sublist kw (toLowerCase w (title l)))
              \<longrightarrow> calculateLeadScore (toLowerCase w) (enhancedJob w l) = 30
                  \<and> leads (db r') = leads (db r))
       \<and> (launch_error w = None \<and> login_ok w
              \<longrightarrow> map unmarked (leads (db (snd (process w data st))))
                  = map unmarked (leads (db (last (run_states w data st)))))"
proof -
  let ?jid = "sj_jobId data" and ?c = "sj_searchCriteria data"
  let ?len = "length (discovered w data st)"
  let ?sc = "calculateLeadScore (toLowerCase w) (enhancedJob w l)"
  have step: "r' = process_listing w ?jid ?c ?len l r"
    unfolding r r' l run_states_def using i by (rule loop_states_nth)
  have cs: "(\<exists>sc. computed_score w ?c l = Some sc \<and> 40 < sc) \<longleftrightarrow> qualifies w ?c l"
    by (simp add: computed_score_def qualifies_def)
  then have ps: "(\<exists>sc. computed_score w ?c l = Some sc \<and> 40 < sc) \<and> store_accepts w ?jid l (db r)
                 \<longleftrightarrow> persists w ?jid ?c l (db r)"
    by (simp add: persists_def)
  have high: "\<exists>row. leads (db r') = leads (db r) @ [row] \<and> jobId row = ?jid
                \<and> varchar 500 (url l) = Some (jobUrl row) \<and> leadScore row = ?sc
                \<and> isQualified row"
    if "persists w ?jid ?c l (db r)"
    using process_listing_persists [OF that, of ?len] unfolding step by blast
  have low: "leads (db r') = leads (db r) \<and> validLeads r' = validLeads r"
    if "\<not> persists w ?jid ?c l (db r)"
    using process_listing_no_row [OF that, of ?len] unfolding step .
  have c1: "(\<exists>row. leads (db r') = leads (db r) @ [row])
            \<longleftrightarrow> (\<exists>sc. computed_score w ?c l = Some sc \<and> 40 < sc)
                \<and> store_accepts w ?jid l (db r)"
  proof
    assume "\<exists>row. leads (db r') = leads (db r) @ [row]"
    then have "leads (db r') \<noteq> leads (db r)" by auto
    with low have "persists w ?jid ?c l (db r)" by blast
    then show "(\<exists>sc. computed_score w ?c l = Some sc \<and> 40 < sc)
                \<and> store_accepts w ?jid l (db r)"
      unfolding ps .
  next
    assume "(\<exists>sc. computed_score w ?c l = Some sc \<and> 40 < sc)
                \<and> store_accepts w ?jid l (db r)"
    from high [OF this [unfolded ps]] show "\<exists>row. leads (db r') = leads (db r) @ [row]"
      by blast
  qed
  have c2: "\<exists>row. leads (db r') = leads (db r) @ [row] \<and> jobId row = ?jid
                     \<and> varchar 500 (url l) = Some (jobUrl row) \<and> leadScore row = sc
                     \<and> isQualified row"
    if "computed_score w ?c l = Some sc \<and> 40 < sc \<and> store_accepts w ?jid l (db r)" for sc
  proof -
    from that have "sc = ?sc" and "qualifies w ?c l"
      by (auto simp: computed_score_def qualifies_def split: if_splits)
    with that high show ?thesis by (simp add: persists_def)
  qed
  have c3: "leads (db r') = leads (db r) \<and> validLeads r' = validLeads r"
    if "\<not> ((\<exists>sc. computed_score w ?c l = Some sc \<and> 40 < sc)
              \<and> store_accepts w ?jid l (db r))"
    using that [unfolded ps] by (rule low)
  have c4: "companies (db r') = companies (db r)"
    if "\<not> (\<exists>sc. computed_score w ?c l = Some sc \<and> 40 < sc)"
  proof -
    from process_listing_untouched [OF that [unfolded cs], of ?jid ?len r] show ?thesis
      unfolding step by simp
  qed
  have c5: "?sc = 30 \<and> leads (db r') = leads (db r)"
    if "isRecruitmentAgency (toLowerCase w) (company l) \<and> hiring_team w (url l) = None
            \<and> salary l = None \<and> length (job_description w (url l)) \<le> 200
            \<and> \<not> (\<exists>kw. kw \<in> set qualityKeywords \<and> sublist kw (toLowerCase w (title l)))"
  proof -
    from that have sc: "?sc = 30" by (intro bare_agency_score) simp_all
    then have "\<not> persists w ?jid ?c l (db r)" by (simp add: persists_def qualifies_def)
    with sc low show ?thesis by blast
  qed
  have c6: "map unmarked (leads (db (snd (process w data st))))
                  = map unmarked (leads (db (last (run_states w data st))))"
    if "launch_error w = None \<and> login_ok w"
    using that by (simp add: run_leads_unmarked run_states_last)
  from step c1 c2 c3 c4 c5 c6 show ?thesis by blast
qed

theorem lead_persisted_iff_score_above_40_witness:
  "\<exists>row. leads (db (run_states
                     (world_of (single_page [card_of (js ''Accountant'') (js ''Acme Bank'')
                                               (js ''u1'')]) no_team)
                     (job_data (js ''job-1'') (criteria_of None None))
                     (store_of [job_row (js ''job-1'') Pending (criteria_of None None)])
                   ! Suc 0))
          = leads (db (run_states
                     (world_of (single_page [card_of (js ''Accountant'') (js ''Acme Bank'')
                                               (js ''u1'')]) no_team)
                     (job_data (js ''job-1'') (criteria_of None None))
                     (store_of [job_row (js ''job-1'') Pending (criteria_of None None)])
                   ! 0))
            @ [row]
        \<and> jobId row = js ''job-1'' \<and> varchar 500 (js ''u1'') = Some (jobUrl row)
        \<and> leadScore row = 80 \<and> isQualified row"
proof -
  define w where
    "w = world_of (single_page [card_of (js ''Accountant'') (js ''Acme Bank'') (js ''u1'')]) no_team"
  define d where "d = job_data (js ''job-1'') (criteria_of None None)"
  define st where "st = store_of [job_row (js ''job-1'') Pending (criteria_of None None)]"
  define l where "l = listing_of_card (card_of (js ''Accountant'') (js ''Acme Bank'') (js ''u1''))"
  have wf: "lowers_ascii (toLowerCase w)" "hiring_team w (js ''u1'') = None"
    "job_description w (js ''u1'') = []"
    "fetch_page w = single_page [card_of (js ''Accountant'') (js ''Acme Bank'') (js ''u1'')]"
    by (simp_all add: w_def world_of_fields no_team_def lowers_ascii_example)
  have data: "sj_jobId d = js ''job-1''" "sj_searchCriteria d = criteria_of None None"
    by (simp_all add: d_def job_data_def)
  have ls: "discovered w d st = [l]"
    unfolding d_def l_def using wf(4) by (simp add: discovered_single_page)
  then have i: "0 < length (discovered w d st)" and li: "l = discovered w d st ! 0"
    by simp_all
  have sc: "computed_score w (criteria_of None None) l = Some 80 \<and> (40 :: int) < 80"
    using acme_score [OF wf(1-3)] acme_not_agency [OF wf(1)]
    by (simp add: computed_score_def skipped_def l_def card_listing)
  have "find_job (js ''job-1'') st \<noteq> None"
    by (simp add: st_def find_job_def store_of_def job_row_def)
  then have job: "find_job (js ''job-1'') (db (run_states w d st ! 0)) \<noteq> None"
    by (simp add: run_states_first after_discovery_frame)
  have "varchar 500 (js ''u1'') \<noteq> None" using varchar_u1 by simp
  from acme_fits [OF wf(2) this, of None]
  have "varchar 255 (company l) \<noteq> None" "lead_columns_fit w l"
    unfolding l_def by simp_all
  from sure_accepts [OF job this]
  have acc: "store_accepts w (js ''job-1'') l (db (run_states w d st ! 0))" .
  have u: "url l = js ''u1''" by (simp add: l_def card_listing)
  from lead_persisted_iff_score_above_40 [OF i li refl refl] sc acc
  have "\<exists>row. leads (db (run_states w d st ! Suc 0)) = leads (db (run_states w d st ! 0)) @ [row]
          \<and> jobId row = js ''job-1'' \<and> varchar 500 (url l) = Some (jobUrl row)
          \<and> leadScore row = 80 \<and> isQualified row"
    unfolding data by blast
  then show ?thesis unfolding u w_def d_def st_def .
qed

text \<open>
  The run of a job that discovers one posting whose address is 501 characters long, in
  any world of the kind of the examples: the score is 80 and the insert of the lead is
  rejected, so that the job completes without a Lead row.
\<close>

lemma long_url_not_persisted_any_world:
  assumes w: "launch_error w = None" "login_ok w" "sheets w = Sheets_ok"
      "fetch_page w = single_page [card_of (js ''Accountant'') (js ''Acme Bank'') long_url]"
      "hiring_team w long_url = None" "job_description w long_url = []"
      "lowers_ascii (toLowerCase w)"
    and d: "d = job_data (js ''job-1'') (criteria_of None None)"
    and st: "st = store_of [job_row (js ''job-1'') Pending (criteria_of None None)]"
  shows "computed_score w (criteria_of None None)
           (listing_of_card (card_of (js ''Accountant'') (js ''Acme Bank'') long_url)) = Some 80
       \<and> leads (db (snd (process w d st))) = []
       \<and> map_option status (find_job (js ''job-1'') (db (snd (process w d st))))
           = Some Completed"
proof -
  define l where "l = listing_of_card (card_of (js ''Accountant'') (js ''Acme Bank'') long_url)"
  let ?c = "criteria_of None None"
  let ?r2 = "after_discovery w d st" and ?r3 = "after_listings w d st"
  have data: "sj_jobId d = js ''job-1''" "sj_searchCriteria d = ?c"
    by (simp_all add: d job_data_def)
  have ls: "discovered w d st = [l]"
    unfolding d l_def using w(4) by (simp add: discovered_single_page)
  have sc: "computed_score w ?c l = Some 80"
    using acme_score [OF w(7,5,6)] acme_not_agency [OF w(7)]
    by (simp add: computed_score_def skipped_def l_def card_listing)
  have r3: "?r3 = process_listing w (js ''job-1'') ?c 1 l ?r2"
    by (simp add: after_listings_def ls data)
  have "\<not> lead_columns_fit w l"
    by (simp add: lead_columns_fit_def l_def card_listing varchar_long_url)
  then have "\<not> persists w (js ''job-1'') ?c l (db ?r2)"
    by (simp add: persists_def store_accepts_def)
  from process_listing_no_row [OF this, of 1]
  have none: "leads (db ?r3) = []" "validLeads ?r3 = []"
    unfolding r3 [symmetric] by (simp_all add: after_discovery_frame st store_of_def)
  from none(2) have e: "export_step w ?r3 = (None, ?r3)" by (rule export_step_none)
  from run_completes [OF w(1-3), of d st]
  obtain res where run: "process w d st = (Inr res, snd (process w d st))" by blast
  from process_completes [OF w(1-3), of d st] e none(1)
  have leads: "leads (db (snd (process w d st))) = []"
    by (simp add: finish_job_frame)
  have "find_job (js ''job-1'') st \<noteq> None"
    by (simp add: st find_job_def store_of_def job_row_def)
  then have "find_job (js ''job-1'') (db ?r3) \<noteq> None"
    unfolding after_listings_def data
    by (simp add: process_listings_job_exists after_discovery_frame)
  with process_completes [OF w(1-3), of d st] e
  have "map_option status (find_job (js ''job-1'') (db (snd (process w d st))))
        = Some Completed"
    using finish_job_frame(6) [of "js ''job-1''" w "length (discovered w d st)" ?r3]
    by (auto simp: data)
  with sc leads show ?thesis unfolding l_def by blast
qed

text \<open>
  C2 as stated fails: the posting is scored 80, above the threshold, and no Lead row is
  persisted for it, since its address does not fit the column \<open>job_url\<close>; the loop logs
  the rejected insert and goes on, and the job completes.
\<close>

theorem long_url_listing_not_persisted:
  "length long_url = 501
   \<and> computed_score
       (world_of (single_page [card_of (js ''Accountant'') (js ''Acme Bank'') long_url]) no_team)
       (criteria_of None None)
       (listing_of_card (card_of (js ''Accountant'') (js ''Acme Bank'') long_url)) = Some 80
   \<and> leads (db (snd (process
       (world_of (single_page [card_of (js ''Accountant'') (js ''Acme Bank'') long_url]) no_team)
       (job_data (js ''job-1'') (criteria_of None None))
       (store_of [job_row (js ''job-1'') Pending (criteria_of None None)])))) = []
   \<and> map_option status (find_job (js ''job-1'') (db (snd (process
       (world_of (single_page [card_of (js ''Accountant'') (js ''Acme Bank'') long_url]) no_team)
       (job_data (js ''job-1'') (criteria_of None None))
       (store_of [job_row (js ''job-1'') Pending (criteria_of None None)])))))
     = Some Completed"
proof (rule conjI)
  show "length long_url = 501" by (simp add: long_url_def)
  show "computed_score
       (world_of (single_page [card_of (js ''Accountant'') (js ''Acme Bank'') long_url]) no_team)
       (criteria_of None None)
       (listing_of_card (card_of (js ''Accountant'') (js ''Acme Bank'') long_url)) = Some 80
   \<and> leads (db (snd (process
       (world_of (single_page [card_of (js ''Accountant'') (js ''Acme Bank'') long_url]) no_team)
       (job_data (js ''job-1'') (criteria_of None None))
       (store_of [job_row (js ''job-1'') Pending (criteria_of None None)])))) = []
   \<and> map_option status (find_job (js ''job-1'') (db (snd (process
       (world_of (single_page [card_of (js ''Accountant'') (js ''Acme Bank'') long_url]) no_team)
       (job_data (js ''job-1'') (criteria_of None None))
       (store_of [job_row (js ''job-1'') Pending (criteria_of None None)])))))
     = Some Completed"
    by (rule long_url_not_persisted_any_world [OF _ _ _ _ _ _ _ refl refl])
       (simp_all add: world_of_fields no_team_def lowers_ascii_example)
qed

lemma ascii_toLowerCase_eq: "ascii_toLowerCase = map ascii_lower"
  by (rule ext) (simp add: ascii_toLowerCase_def)

text \<open>
  The round of C10 in any world whose runtime lowers ASCII text as ECMAScript prescribes
  and in which the page of the posting names the hiring manager Ann.
\<close>

lemma agency_round_any_world:
  assumes w: "lowers_ascii (toLowerCase w)"
      "hiring_team w (js ''u1'')
       = Some \<lparr>team_name = Some (js ''Ann''), team_title = None, team_profile = None\<rparr>"
      "job_description w (js ''u1'') = []"
    and c: "c = criteria_of (Some False) None"
    and l: "l = listing_of_card (card_of (js ''Accountant'') (js ''Hays Recruitment'') (js ''u1''))"
    and r: "r = fresh_worker (js ''job-1'') c"
  shows "map (\<lambda>x. (jobId x, jobUrl x, leadScore x, isQualified x))
           (leads (db (process_listing w (js ''job-1'') c 1 l r)))
         = [(js ''job-1'', js ''u1'', 45, True)]
       \<and> map (\<lambda>c. (company_name c, company_isRecruitmentAgency c))
           (companies (db (process_listing w (js ''job-1'') c 1 l r)))
         = [(js ''Hays Recruitment'', True)]"
proof -
  let ?sc = "calculateLeadScore (toLowerCase w) (enhancedJob w l)"
  have ascii: "is_ascii (js ''Hays Recruitment'')" "is_ascii (js ''Accountant'')"
    by (simp_all add: is_ascii_def)
  from isRecruitmentAgency_ascii [OF w(1) ascii(1)] agency_hays
  have agency: "isRecruitmentAgency (toLowerCase w) (js ''Hays Recruitment'')" by simp
  have "is_ascii (company (enhancedJob w l))" "is_ascii (title (enhancedJob w l))"
    using ascii by (simp_all add: enhancedJob_fields l card_listing)
  from calculateLeadScore_ascii [OF w(1) this]
  have "?sc = calculateLeadScore (map ascii_lower) (enhancedJob w l)" .
  also have "\<dots> = 45"
    using agency_hays plain_title w(2,3)
    by (simp add: calculateLeadScore_def rawLeadScore_def enhancedJob_fields l card_listing
          extractHiringManagerInfo_def)
  finally have sc: "?sc = 45" .
  have ns: "\<not> skipped w c l" by (simp add: skipped_def c criteria_of_def)
  with sc have q: "qualifies w c l" by (simp add: qualifies_def)
  have name: "varchar 255 (js ''Hays Recruitment'') = Some (js ''Hays Recruitment'')"
    and cols: "varchar 255 (js ''Accountant'') = Some (js ''Accountant'')"
      "varchar 255 (js ''London'') = Some (js ''London'')"
      "varchar 255 (js ''Ann'') = Some (js ''Ann'')"
    by (rule varchar_ascii; simp add: is_ascii_def)+
  have fit: "lead_columns_fit w l"
    using cols varchar_u1 w(2)
    by (simp add: lead_columns_fit_def l card_listing extractHiringManagerInfo_def)
  have st: "leads (db r) = []" "companies (db r) = []"
    "find_job (js ''job-1'') (db r) \<noteq> None"
    by (simp_all add: r fresh_worker_def store_of_def find_job_def job_row_def)
  from st(2) have nf: "find_company (company l) (db r) = None"
    by (simp add: find_company_def)
  have cn: "varchar 255 (company l) = Some (js ''Hays Recruitment'')"
    using name by (simp add: l card_listing)
  then have "varchar 255 (company l) \<noteq> None" by simp
  from sure_accepts [OF st(3) this fit] q
  have "persists w (js ''job-1'') c l (db r)" by (simp add: persists_def)
  from process_listing_persists [OF this, of 1] obtain row where
    "leads (db (process_listing w (js ''job-1'') c 1 l r)) = leads (db r) @ [row]"
    "jobId row = js ''job-1''" "varchar 500 (url l) = Some (jobUrl row)"
    "leadScore row = ?sc" "isQualified row"
    by blast
  with varchar_u1 sc st(1)
  have leads: "map (\<lambda>x. (jobId x, jobUrl x, leadScore x, isQualified x))
           (leads (db (process_listing w (js ''job-1'') c 1 l r)))
         = [(js ''job-1'', js ''u1'', 45, True)]"
    by (simp add: l card_listing)
  from process_listing_companies [OF q, of "js ''job-1''" 1 r]
    persist_lead_new_company [OF nf cn, of w "js ''job-1''" ?sc]
  have "companies (db (process_listing w (js ''job-1'') c 1 l r))
        = [\<lparr>company_id = company_seq (db r) + 1, company_name = js ''Hays Recruitment'',
            company_isRecruitmentAgency = isRecruitmentAgency (toLowerCase w) (company l),
            isBlacklisted = False\<rparr>]"
    by (simp add: st(2))
  with agency have "map (\<lambda>c. (company_name c, company_isRecruitmentAgency c))
           (companies (db (process_listing w (js ''job-1'') c 1 l r)))
         = [(js ''Hays Recruitment'', True)]"
    by (simp add: l card_listing)
  with leads show ?thesis by blast
qed

text \<open>
  C10. Scoring alone does not exclude agencies. An agency listing with a contact name
  and a contact email scores 30 + 15 + 20 = 65; and with \<open>excludeAgencies\<close> false, the
  round of the loop for a card of the agency "Hays Recruitment" whose page names a
  hiring manager computes 30 + 15 = 45, above 40, and stores a qualified Lead and the
  company as an agency.
\<close>

theorem agency_listing_persisted_when_not_excluded:
  "isRecruitmentAgency ascii_toLowerCase (js ''Hays Recruitment'')
   \<and> calculateLeadScore ascii_toLowerCase
       \<lparr>title = js ''Accountant'', company = js ''Hays Recruitment'', location = js ''London'',
        url = js ''u1'', description = None, salary = None, postedDate = None,
        hiringManager = Some \<lparr>hm_name = Some (js ''Ann''), hm_title = None,
                               hm_linkedinUrl = None,
                               hm_email = Some (js ''ann@example.org'')\<rparr>\<rparr> = 65
   \<and> excludeAgencies (criteria_of (Some False) None) = Some False
   \<and> map (\<lambda>x. (jobId x, jobUrl x, leadScore x, isQualified x))
       (leads (db (process_listing (world_of (single_page []) ann_team) (js ''job-1'')
                     (criteria_of (Some False) None) 1
                     (listing_of_card (card_of (js ''Accountant'') (js ''Hays Recruitment'')
                                         (js ''u1'')))
                     (fresh_worker (js ''job-1'') (criteria_of (Some False) None)))))
     = [(js ''job-1'', js ''u1'', 45, True)]
   \<and> map (\<lambda>c. (company_name c, company_isRecruitmentAgency c))
       (companies (db (process_listing (world_of (single_page []) ann_team) (js ''job-1'')
                     (criteria_of (Some False) None) 1
                     (listing_of_card (card_of (js ''Accountant'') (js ''Hays Recruitment'')
                                         (js ''u1'')))
                     (fresh_worker (js ''job-1'') (criteria_of (Some False) None)))))
     = [(js ''Hays Recruitment'', True)]"
proof (intro conjI)
  show "isRecruitmentAgency ascii_toLowerCase (js ''Hays Recruitment'')"
    using agency_hays by (simp only: ascii_toLowerCase_eq)
  show "calculateLeadScore ascii_toLowerCase
       \<lparr>title = js ''Accountant'', company = js ''Hays Recruitment'', location = js ''London'',
        url = js ''u1'', description = None, salary = None, postedDate = None,
        hiringManager = Some \<lparr>hm_name = Some (js ''Ann''), hm_title = None,
                               hm_linkedinUrl = None,
                               hm_email = Some (js ''ann@example.org'')\<rparr>\<rparr> = 65"
    unfolding ascii_toLowerCase_eq using agency_hays plain_title
    by (simp add: calculateLeadScore_def rawLeadScore_def)
  show "excludeAgencies (criteria_of (Some False) None) = Some False"
    by (simp add: criteria_of_def)
  have round: "map (\<lambda>x. (jobId x, jobUrl x, leadScore x, isQualified x))
       (leads (db (process_listing (world_of (single_page []) ann_team) (js ''job-1'')
                     (criteria_of (Some False) None) 1
                     (listing_of_card (card_of (js ''Accountant'') (js ''Hays Recruitment'')
                                         (js ''u1'')))
                     (fresh_worker (js ''job-1'') (criteria_of (Some False) None)))))
     = [(js ''job-1'', js ''u1'', 45, True)]
   \<and> map (\<lambda>c. (company_name c, company_isRecruitmentAgency c))
       (companies (db (process_listing (world_of (single_page []) ann_team) (js ''job-1'')
                     (criteria_of (Some False) None) 1
                     (listing_of_card (card_of (js ''Accountant'') (js ''Hays Recruitment'')
                                         (js ''u1'')))
                     (fresh_worker (js ''job-1'') (criteria_of (Some False) None)))))
     = [(js ''Hays Recruitment'', True)]"
    by (rule agency_round_any_world [OF _ _ _ refl refl refl])
       (simp_all add: world_of_fields ann_team_def lowers_ascii_example)
  from round show "map (\<lambda>x. (jobId x, jobUrl x, leadScore x, isQualified x))
       (leads (db (process_listing (world_of (single_page []) ann_team) (js ''job-1'')
                     (criteria_of (Some False) None) 1
                     (listing_of_card (card_of (js ''Accountant'') (js ''Hays Recruitment'')
                                         (js ''u1'')))
                     (fresh_worker (js ''job-1'') (criteria_of (Some False) None)))))
     = [(js ''job-1'', js ''u1'', 45, True)]" ..
  from round show "map (\<lambda>c. (company_name c, company_isRecruitmentAgency c))
       (companies (db (process_listing (world_of (single_page []) ann_team) (js ''job-1'')
                     (criteria_of (Some False) None) 1
                     (listing_of_card (card_of (js ''Accountant'') (js ''Hays Recruitment'')
                                         (js ''u1'')))
                     (fresh_worker (js ''job-1'') (criteria_of (Some False) None)))))
     = [(js ''Hays Recruitment'', True)]" ..
qed

section \<open>The claim about the counter of leads\<close>

text \<open>
  C7, as the code has it. On a run that starts without Lead rows of the job and with
  the counter at 0 (the job's first attempt) and that reaches completed, the counter
  \<open>leadsGenerated\<close> of the job is the number of its Lead rows; and the counter does not
  decrease over the run: its values at the start, after the discovery, after each round
  of the listing loop and at the end are sorted.
\<close>

theorem leadsGenerated_counts_lead_rows:
  assumes rows: "lead_rows (sj_jobId data) st = []"
    and zero: "counter_of (sj_jobId data) st = Some 0"
    and run: "process w data st = (Inr res, r)"
  shows "counter_of (sj_jobId data) (db r)
           = Some (int (length (lead_rows (sj_jobId data) (db r))))
       \<and> map_option status (find_job (sj_jobId data) (db r)) = Some Completed
       \<and> sorted (map (\<lambda>s. the (counter_of (sj_jobId data) (db s)))
           (start_worker w (sj_jobId data) st
            # loop_states w (sj_jobId data) (sj_searchCriteria data)
                (length (discovered w data st)) (discovered w data st)
                (after_discovery w data st)
            @ [r]))"
proof -
  let ?jid = "sj_jobId data" and ?c = "sj_searchCriteria data"
  let ?ls = "discovered w data st"
  let ?q = "length (validLeads (after_listings w data st))"
  let ?f = "\<lambda>s. the (counter_of ?jid (db s))"
  let ?states = "loop_states w ?jid ?c (length ?ls) ?ls (after_discovery w data st)"
  have c3: "counter_of ?jid (db (after_listings w data st)) = Some (int ?q)"
    using zero by (rule after_listings_counter_inv)
  have r3: "length (lead_rows ?jid (db (after_listings w data st))) = ?q"
    by (simp add: after_listings_rows_inv rows)
  from run_final_counts [OF run] c3 r3
  have counter: "counter_of ?jid (db r) = Some (int (length (lead_rows ?jid (db r))))"
    and final: "counter_of ?jid (db r) = Some (int ?q)"
    by simp_all
  from final obtain j where "find_job ?jid (db r) = Some j"
    by (auto simp: counter_of_def)
  with completed_row [OF run]
  have completed: "map_option status (find_job ?jid (db r)) = Some Completed"
    by simp
  have inv: "\<forall>s \<in> set ?states. counter_of ?jid (db s) = Some (int (length (validLeads s)))"
    by (rule loop_states_all) (simp_all add: process_listing_counter_inv after_discovery_frame zero)
  then have "map ?f ?states = map (\<lambda>s. int (length (validLeads s))) ?states"
    by (intro map_cong) simp_all
  then have sorted: "sorted (map ?f ?states)"
    by (simp only: loop_states_valid_sorted)
  have lastq: "last (map ?f ?states) = int ?q"
  proof -
    have ne: "?states \<noteq> []" by (cases ?ls) simp_all
    then have "last (map ?f ?states) = ?f (last ?states)" by (rule last_map)
    also have "last ?states = after_listings w data st"
      by (simp add: loop_states_last after_listings_def)
    finally show ?thesis by (simp add: c3)
  qed
  have upper: "\<forall>x \<in> set (map ?f ?states). x \<le> int ?q"
    using sorted_le_last [OF sorted] lastq by auto
  have lower: "\<forall>x \<in> set (map ?f ?states). 0 \<le> x"
    using inv by auto
  have "sorted (map ?f (start_worker w ?jid st # ?states @ [r]))"
    using sorted upper lower final
    by (simp add: sorted_append start_worker_frame zero)
  with counter completed show ?thesis by blast
qed


theorem leadsGenerated_counts_lead_rows_witness:
  "counter_of (js ''job-1'')
     (db (snd (process
                (world_of (single_page [card_of (js ''Accountant'') (js ''Acme Bank'') (js ''u1'')])
                   no_team)
                (job_data (js ''job-1'') (criteria_of None None))
                (store_of [job_row (js ''job-1'') Pending (criteria_of None None)]))))
   = Some (int (length (lead_rows (js ''job-1'')
     (db (snd (process
                (world_of (single_page [card_of (js ''Accountant'') (js ''Acme Bank'') (js ''u1'')])
                   no_team)
                (job_data (js ''job-1'') (criteria_of None None))
                (store_of [job_row (js ''job-1'') Pending (criteria_of None None)])))))))"
proof -
  let ?w = "world_of (single_page [card_of (js ''Accountant'') (js ''Acme Bank'') (js ''u1'')])
              no_team"
  let ?d = "job_data (js ''job-1'') (criteria_of None None)"
  let ?st = "store_of [job_row (js ''job-1'') Pending (criteria_of None None)]"
  have jid: "sj_jobId ?d = js ''job-1''" by (simp add: job_data_def)
  have rows: "lead_rows (sj_jobId ?d) ?st = []"
    by (simp add: lead_rows_def store_of_def)
  have zero: "counter_of (sj_jobId ?d) ?st = Some 0"
    by (simp add: counter_of_def find_job_def store_of_def job_row_def job_data_def)
  from run_completes [of ?w ?d ?st]
  obtain res where run: "process ?w ?d ?st = (Inr res, snd (process ?w ?d ?st))"
    by (auto simp: world_of_fields)
  from leadsGenerated_counts_lead_rows [OF rows zero run] show ?thesis
    unfolding jid by blast
qed

text \<open>
  A second attempt of a job that failed after it had stored one lead, in any world of the
  kind of the examples: the attempt stores its lead again and writes the number of the
  leads of this attempt to the counter.
\<close>

lemma retried_job_counts:
  assumes w: "launch_error w = None" "login_ok w" "sheets w = Sheets_ok"
      "fetch_page w = single_page [card_of (js ''Accountant'') (js ''Acme Bank'') (js ''u1'')]"
      "hiring_team w (js ''u1'') = None" "job_description w (js ''u1'') = []"
      "lowers_ascii (toLowerCase w)"
    and d: "d = job_data (js ''job-1'') (criteria_of None None)"
    and st: "st = \<lparr>jobs = [(job_row (js ''job-1'') Failed (criteria_of None None))
                             \<lparr>leadsGenerated := 1\<rparr>],
                    companies = [], leads = [old_lead 1 (js ''job-1'') (js ''u1'')],
                    company_seq = 0, lead_seq = 1\<rparr>"
  shows "map_option status (find_job (js ''job-1'') (db (snd (process w d st))))
           = Some Completed
       \<and> counter_of (js ''job-1'') (db (snd (process w d st))) = Some 1
       \<and> length (lead_rows (js ''job-1'') (db (snd (process w d st)))) = 2"
proof -
  let ?l = "listing_of_card (card_of (js ''Accountant'') (js ''Acme Bank'') (js ''u1''))"
  have data: "sj_jobId d = js ''job-1''" "sj_searchCriteria d = criteria_of None None"
    by (simp_all add: d job_data_def)
  have ls: "discovered w d st = [?l]"
    unfolding d using w(4) by (simp add: discovered_single_page)
  have rows0: "lead_rows (js ''job-1'') st = [old_lead 1 (js ''job-1'') (js ''u1'')]"
    by (simp add: st lead_rows_def old_lead_def)
  have c0: "counter_of (js ''job-1'') st = Some 1"
    by (simp add: st counter_of_def find_job_def job_row_def)
  then have job: "find_job (js ''job-1'') st \<noteq> None" by (auto simp: counter_of_def)
  note round = single_acme_round [OF w(7,5,6) varchar_u1 data ls job]
  from round(1) obtain row where "leads (db (after_listings w d st)) = leads st @ [row]"
    and "jobId row = js ''job-1''"
    by blast
  then have r3: "length (lead_rows (js ''job-1'') (db (after_listings w d st))) = 2"
    using rows0 by (simp add: lead_rows_def)
  from round(2) c0 have c3: "counter_of (js ''job-1'') (db (after_listings w d st)) = Some 1"
    by simp
  from run_completes [OF w(1-3), of d st]
  obtain res where run: "process w d st = (Inr res, snd (process w d st))" by blast
  from run_final_counts [OF run] c3 r3
  have counter: "counter_of (js ''job-1'') (db (snd (process w d st))) = Some 1"
    and rows: "length (lead_rows (js ''job-1'') (db (snd (process w d st)))) = 2"
    unfolding data by simp_all
  from counter obtain j where "find_job (js ''job-1'') (db (snd (process w d st))) = Some j"
    by (auto simp: counter_of_def)
  with completed_row [OF run, of j]
  have "map_option status (find_job (js ''job-1'') (db (snd (process w d st))))
        = Some Completed"
    unfolding data by simp
  with counter rows show ?thesis by blast
qed

text \<open>
  C7 as stated fails for a job that the queue runs again (the queue is configured with
  three attempts): the second attempt of a job that failed after storing one Lead
  stores its Lead again and sets the counter to the number of Leads of this attempt.
  The job completes with the counter at 1 and two Lead rows.
\<close>

theorem retried_job_counter_below_rows:
  "map_option status
     (find_job (js ''job-1'')
       (db (snd (process
                  (world_of (single_page [card_of (js ''Accountant'') (js ''Acme Bank'') (js ''u1'')])
                     no_team)
                  (job_data (js ''job-1'') (criteria_of None None))
                  \<lparr>jobs = [(job_row (js ''job-1'') Failed (criteria_of None None))
                             \<lparr>leadsGenerated := 1\<rparr>],
                    companies = [], leads = [old_lead 1 (js ''job-1'') (js ''u1'')],
                    company_seq = 0, lead_seq = 1\<rparr>))))
   = Some Completed
   \<and> counter_of (js ''job-1'')
       (db (snd (process
                  (world_of (single_page [card_of (js ''Accountant'') (js ''Acme Bank'') (js ''u1'')])
                     no_team)
                  (job_data (js ''job-1'') (criteria_of None None))
                  \<lparr>jobs = [(job_row (js ''job-1'') Failed (criteria_of None None))
                             \<lparr>leadsGenerated := 1\<rparr>],
                    companies = [], leads = [old_lead 1 (js ''job-1'') (js ''u1'')],
                    company_seq = 0, lead_seq = 1\<rparr>)))
     = Some 1
   \<and> length (lead_rows (js ''job-1'')
       (db (snd (process
                  (world_of (single_page [card_of (js ''Accountant'') (js ''Acme Bank'') (js ''u1'')])
                     no_team)
                  (job_data (js ''job-1'') (criteria_of None None))
                  \<lparr>jobs = [(job_row (js ''job-1'') Failed (criteria_of None None))
                             \<lparr>leadsGenerated := 1\<rparr>],
                    companies = [], leads = [old_lead 1 (js ''job-1'') (js ''u1'')],
                    company_seq = 0, lead_seq = 1\<rparr>))))
     = 2"
  by (rule retried_job_counts [OF _ _ _ _ _ _ _ refl refl])
     (simp_all add: world_of_fields no_team_def lowers_ascii_example)

text \<open>
  The counter is written in the rounds of the listing loop only: an attempt that
  discovers no listing completes with the counter it found.
\<close>

lemma attempt_without_listings_keeps_counter:
  assumes "discovered w data st = []" and "process w data st = (Inr res, r)"
  shows "counter_of (sj_jobId data) (db r) = counter_of (sj_jobId data) st"
proof -
  from assms(1) have "after_listings w data st = after_discovery w data st"
    by (simp add: after_listings_def)
  with run_final_counts [OF assms(2)] show ?thesis
    by (simp add: after_discovery_frame)
qed

section \<open>The claim about the export marks\<close>

lemma export_step_marks_by_url:
  assumes "validLeads r \<noteq> []" and "sheets w = Sheets_ok"
  shows "leads (db (snd (export_step w r)))
         = map (\<lambda>l. if jobUrl l \<in> ld_jobUrl ` set (validLeads r)
                     then l\<lparr>exportedToSheets := True, exportedAt := Some (now w)\<rparr> else l)
             (leads (db r))"
  by (simp add: export_step_ok [OF assms] mark_exported_leads)

text \<open>
  The run of C8 in any world of the kind of the examples, whatever its runtime does with
  text that is not ASCII.
\<close>

lemma export_marks_other_job_any_world:
  assumes w: "launch_error w = None" "login_ok w" "sheets w = Sheets_ok"
      "fetch_page w = single_page [card_of (js ''Accountant'') (js ''Acme Bank'') (js ''u1'')]"
      "hiring_team w (js ''u1'') = None" "job_description w (js ''u1'') = []"
      "lowers_ascii (toLowerCase w)"
    and d: "d = job_data (js ''job-1'') (criteria_of None None)"
    and st: "st = \<lparr>jobs = [job_row (js ''job-1'') Pending (criteria_of None None),
                 job_row (js ''job-2'') Completed (criteria_of None None)],
          companies = [], leads = [old_lead 1 (js ''job-2'') (js ''u1'')],
          company_seq = 0, lead_seq = 1\<rparr>"
  shows "map (\<lambda>l. (jobId l, jobUrl l, exportedToSheets l)) (leads (db (snd (process w d st))))
         = [(js ''job-2'', js ''u1'', True), (js ''job-1'', js ''u1'', True)]"
proof -
  define r3 where "r3 = after_listings w d st"
  have data: "sj_jobId d = js ''job-1''" "sj_searchCriteria d = criteria_of None None"
    by (simp_all add: d job_data_def)
  have ls: "discovered w d st
            = [listing_of_card (card_of (js ''Accountant'') (js ''Acme Bank'') (js ''u1''))]"
    unfolding d using w(4) by (simp add: discovered_single_page)
  have job: "find_job (js ''job-1'') st \<noteq> None"
    by (simp add: st find_job_def job_row_def)
  from single_acme_round(1) [OF w(7,5,6) varchar_u1 data ls job]
  obtain row ld where rows: "leads (db r3) = [old_lead 1 (js ''job-2'') (js ''u1''), row]"
    and valid: "validLeads r3 = [ld]"
    and row: "jobId row = js ''job-1''" "jobUrl row = js ''u1''"
    and ld: "ld_jobUrl ld = js ''u1''"
    unfolding r3_def by (auto simp: st)
  from valid have "validLeads r3 \<noteq> []" by simp
  from export_step_ok [OF this w(3)]
  have "leads (db (snd (export_step w r3)))
        = leads (mark_exported (now w) (validLeads r3) (db r3))"
    by simp
  also have "\<dots> = [(old_lead 1 (js ''job-2'') (js ''u1''))\<lparr>exportedToSheets := True,
                                                  exportedAt := Some (now w)\<rparr>,
                     row\<lparr>exportedToSheets := True, exportedAt := Some (now w)\<rparr>]"
    by (simp add: update_leads_by_jobUrl_def rows valid ld row old_lead_def)
  finally have marked: "map (\<lambda>l. (jobId l, jobUrl l, exportedToSheets l))
                          (leads (db (snd (export_step w r3))))
                        = [(js ''job-2'', js ''u1'', True), (js ''job-1'', js ''u1'', True)]"
    by (simp add: row old_lead_def)
  from process_completes [OF w(1-3), of d st]
  have "leads (db (snd (process w d st))) = leads (db (snd (export_step w r3)))"
    by (simp add: finish_job_frame r3_def)
  with marked show ?thesis by simp
qed

text \<open>
  C8, evaluated where the code departs from it. The loop that marks the exported leads
  selects the rows by \<open>jobUrl\<close>, not by job. Job 2 has stored a Lead for the posting
  \<open>u1\<close> earlier, not exported; job 1 now finds the same posting, stores its own Lead
  and exports it. After the run the Lead of job 2 is marked as exported too.
\<close>

theorem export_marks_lead_of_other_job:
  "map (\<lambda>l. (jobId l, jobUrl l, exportedToSheets l))
     (leads \<lparr>jobs = [job_row (js ''job-1'') Pending (criteria_of None None),
                      job_row (js ''job-2'') Completed (criteria_of None None)],
             companies = [], leads = [old_lead 1 (js ''job-2'') (js ''u1'')],
             company_seq = 0, lead_seq = 1\<rparr>)
   = [(js ''job-2'', js ''u1'', False)]
   \<and> map (\<lambda>l. (jobId l, jobUrl l, exportedToSheets l))
     (leads (db (snd (process
        (world_of (single_page [card_of (js ''Accountant'') (js ''Acme Bank'') (js ''u1'')]) no_team)
        (job_data (js ''job-1'') (criteria_of None None))
        \<lparr>jobs = [job_row (js ''job-1'') Pending (criteria_of None None),
                 job_row (js ''job-2'') Completed (criteria_of None None)],
          companies = [], leads = [old_lead 1 (js ''job-2'') (js ''u1'')],
          company_seq = 0, lead_seq = 1\<rparr>))))
   = [(js ''job-2'', js ''u1'', True), (js ''job-1'', js ''u1'', True)]"
proof (rule conjI)
  show "map (\<lambda>l. (jobId l, jobUrl l, exportedToSheets l))
     (leads \<lparr>jobs = [job_row (js ''job-1'') Pending (criteria_of None None),
                      job_row (js ''job-2'') Completed (criteria_of None None)],
             companies = [], leads = [old_lead 1 (js ''job-2'') (js ''u1'')],
             company_seq = 0, lead_seq = 1\<rparr>)
   = [(js ''job-2'', js ''u1'', False)]"
    by (simp add: old_lead_def)
  show "map (\<lambda>l. (jobId l, jobUrl l, exportedToSheets l))
     (leads (db (snd (process
        (world_of (single_page [card_of (js ''Accountant'') (js ''Acme Bank'') (js ''u1'')]) no_team)
        (job_data (js ''job-1'') (criteria_of None None))
        \<lparr>jobs = [job_row (js ''job-1'') Pending (criteria_of None None),
                 job_row (js ''job-2'') Completed (criteria_of None None)],
          companies = [], leads = [old_lead 1 (js ''job-2'') (js ''u1'')],
          company_seq = 0, lead_seq = 1\<rparr>))))
   = [(js ''job-2'', js ''u1'', True), (js ''job-1'', js ''u1'', True)]"
    by (rule export_marks_other_job_any_world [OF _ _ _ _ _ _ _ refl refl])
       (simp_all add: world_of_fields no_team_def lowers_ascii_example)
qed

section \<open>The claim about progress\<close>

lemma fail_job_reported: "reported (fail_job w jid msg r) = reported r"
  by (simp add: fail_job_def)

lemma reported_started:
  assumes "launch_error w = None" and "login_ok w"
  shows "reported (snd (process w data st))
         = 10 # map (page_report (effectiveMaxPages (sj_searchCriteria data)))
                  (pages_read (fetch_page w) (effectiveMaxPages (sj_searchCriteria data)))
           @ map (listing_report (length (discovered w data st)))
               [1..<1 + processedCount (after_listings w data st)]
           @ (if validLeads (after_listings w data st) = []
              then [100] else if sheets w = Sheets_ok then [90, 100] else [90])"
proof -
  let ?c = "sj_searchCriteria data" and ?ls = "discovered w data st"
  let ?r2 = "after_discovery w data st" and ?r3 = "after_listings w data st"
  have r2: "reported ?r2 = 10 # map (page_report (effectiveMaxPages ?c))
                                  (pages_read (fetch_page w) (effectiveMaxPages ?c))"
    by (simp add: after_discovery_def discover_reported start_worker_frame)
  have r3: "reported ?r3 = reported ?r2
              @ map (listing_report (length ?ls)) [1..<1 + processedCount ?r3]"
    using process_listings_reported [of w "sj_jobId data" ?c "length ?ls" ?ls ?r2]
    by (simp add: after_listings_def after_discovery_frame)
  note run = process_run [OF assms, of data st]
  show ?thesis
  proof (cases "validLeads ?r3 = []")
    case True
    with run r2 r3 show ?thesis
      by (simp add: export_step_none finish_job_frame)
  next
    case False
    show ?thesis
    proof (cases "sheets w = Sheets_ok")
      case True
      with False run r2 r3 show ?thesis
        by (simp add: export_step_ok finish_job_frame)
    next
      case no: False
      from export_step_throws [OF False no] obtain msg where
        "export_step w ?r3 = (Some msg, ?r3\<lparr>reported := reported ?r3 @ [90]\<rparr>)"
        by blast
      with False no run r2 r3 show ?thesis
        by (simp add: fail_job_reported)
    qed
  qed
qed

lemma reported_completed:
  assumes "launch_error w = None" and "login_ok w" and "sheets w = Sheets_ok"
  shows "reported (snd (process w data st))
         = 10 # map (page_report (effectiveMaxPages (sj_searchCriteria data)))
                  (pages_read (fetch_page w) (effectiveMaxPages (sj_searchCriteria data)))
           @ map (listing_report (length (discovered w data st)))
               [1..<1 + processedCount (after_listings w data st)]
           @ (if validLeads (after_listings w data st) = [] then [] else [90])
           @ [100]"
  using reported_started [OF assms(1,2), of data st] assms(3) by simp

lemma reported_not_started:
  assumes "launch_error w \<noteq> None \<or> \<not> login_ok w"
  shows "reported (snd (process w data st)) = []"
  using process_not_started [OF assms, of data st]
  by (auto simp: fail_job_reported start_worker_frame)

lemma Math_round_mono: "x \<le> y \<Longrightarrow> Math_round x \<le> Math_round y"
  by (simp add: Math_round_def floor_mono)

lemma page_report_mono:
  assumes "0 < mp" and "p \<le> q"
  shows "page_report mp p \<le> page_report mp q"
proof -
  from assms have "(of_nat (p + 1) / mp) * 100 \<le> (of_nat (q + 1) / mp) * 100"
    by (simp add: divide_right_mono)
  then have "Math_round ((of_nat (p + 1) / mp) * 100) \<le> Math_round ((of_nat (q + 1) / mp) * 100)"
    by (rule Math_round_mono)
  then show ?thesis by (simp add: page_report_def)
qed

lemma page_report_band:
  assumes "0 < mp" and "of_nat (p + 1) \<le> mp"
  shows "10 \<le> page_report mp p \<and> page_report mp p \<le> 70"
proof -
  from assms have "of_nat (p + 1) / mp \<le> 1" by (simp only: pos_divide_le_eq mult_1)
  then have "(of_nat (p + 1) / mp) * 100 \<le> 1 * 100" by (rule mult_right_mono) simp
  then have "(of_nat (p + 1) / mp) * 100 \<le> 100" by simp
  then have "Math_round ((of_nat (p + 1) / mp) * 100) \<le> Math_round 100"
    by (rule Math_round_mono)
  then have hi: "Math_round ((of_nat (p + 1) / mp) * 100) \<le> 100"
    by (simp add: Math_round_def)
  from assms have "0 \<le> (of_nat (p + 1) / mp) * 100" by simp
  then have "Math_round 0 \<le> Math_round ((of_nat (p + 1) / mp) * 100)"
    by (rule Math_round_mono)
  then have lo: "0 \<le> Math_round ((of_nat (p + 1) / mp) * 100)"
    by (simp add: Math_round_def)
  from lo hi show ?thesis by (simp add: page_report_def)
qed

lemma listing_report_mono:
  assumes "j \<le> k"
  shows "listing_report len j \<le> listing_report len k"
  using assms by (simp add: listing_report_def divide_right_mono)

lemma listing_report_band:
  assumes "k \<le> len"
  shows "70 \<le> listing_report len k \<and> listing_report len k \<le> 90"
proof -
  define t where "t = real k / real len"
  have "0 \<le> t" by (simp add: t_def)
  moreover have "t \<le> 1"
  proof (cases "len = 0")
    case True
    then show ?thesis by (simp add: t_def)
  next
    case False
    with assms show ?thesis by (simp add: t_def)
  qed
  moreover have "listing_report len k = 70 + t * 20" by (simp add: listing_report_def t_def)
  ultimately show ?thesis by simp
qed

lemma pages_requested_subset: "set (pages_requested fetch ps) \<subseteq> set ps"
  by (induction ps) auto

lemma pages_requested_sorted: "sorted ps \<Longrightarrow> sorted (pages_requested fetch ps)"
  using pages_requested_subset [of fetch] by (induction ps) auto

lemma pages_read_sorted:
  "sorted (pages_read fetch mp) \<and> (\<forall>p \<in> set (pages_read fetch mp). p < nat \<lceil>mp\<rceil>)"
proof -
  have "sorted (pages_requested fetch [0..<nat \<lceil>mp\<rceil>])"
    by (rule pages_requested_sorted) simp
  then have "sorted (pages_read fetch mp)"
    unfolding pages_read_def by (rule sorted_wrt_filter)
  moreover have "\<forall>p \<in> set (pages_read fetch mp). p < nat \<lceil>mp\<rceil>"
    using pages_requested_subset [of fetch "[0..<nat \<lceil>mp\<rceil>]"]
    by (auto simp: pages_read_def)
  ultimately show ?thesis by blast
qed

lemma sorted_map_mono:
  fixes f :: "nat \<Rightarrow> real"
  assumes "\<And>p q. p \<le> q \<Longrightarrow> f p \<le> f q" and "sorted xs"
  shows "sorted (map f xs)"
  using assms(2) by (induction xs) (auto simp: assms(1))

text \<open>
  Where \<open>maxPages\<close> is a whole number (or absent), the progress values of a run are in
  their bands and never decrease, whatever the browser and the spreadsheet service do.
\<close>

lemma progress_sorted_for_integer_maxPages:
  assumes whole: "effectiveMaxPages (sj_searchCriteria data) = of_nat m"
  shows "sorted (reported (snd (process w data st)))
       \<and> (\<forall>x \<in> set (reported (snd (process w data st))). 10 \<le> x \<and> x \<le> 100)"
proof (cases "launch_error w = None \<and> login_ok w")
  case False
  then have "launch_error w \<noteq> None \<or> \<not> login_ok w" by simp
  from reported_not_started [OF this, of data st] show ?thesis by simp
next
  case True
  let ?c = "sj_searchCriteria data" and ?ls = "discovered w data st"
  let ?mp = "effectiveMaxPages ?c"
  let ?n = "processedCount (after_listings w data st)"
  define disc where "disc = map (page_report ?mp) (pages_read (fetch_page w) ?mp)"
  define enrich where "enrich = map (listing_report (length ?ls)) [1..<1 + ?n]"
  define tail where "tail = (if validLeads (after_listings w data st) = [] then [100 :: real]
               else if sheets w = Sheets_ok then [90, 100] else [90])"
  have "?mp \<noteq> 0" by (simp add: effectiveMaxPages_def split: option.split)
  with whole have pos: "0 < ?mp" and m: "nat \<lceil>?mp\<rceil> = m" by simp_all
  have disc_band: "\<forall>x \<in> set disc. 10 \<le> x \<and> x \<le> 70"
  proof -
    have "10 \<le> page_report ?mp p \<and> page_report ?mp p \<le> 70"
      if "p \<in> set (pages_read (fetch_page w) ?mp)" for p
    proof -
      from that pages_read_sorted [of "fetch_page w" ?mp] have "p < m" unfolding m by blast
      then have "real (p + 1) \<le> ?mp" unfolding whole by simp
      with pos show ?thesis by (intro page_report_band)
    qed
    then show ?thesis unfolding disc_def by auto
  qed
  have "sorted (pages_read (fetch_page w) ?mp)"
    using pages_read_sorted [of "fetch_page w" ?mp] by blast
  then have disc_sorted: "sorted disc"
    unfolding disc_def by (rule sorted_map_mono [rotated]) (rule page_report_mono [OF pos])
  have enrich_band: "\<forall>x \<in> set enrich. 70 \<le> x \<and> x \<le> 90"
  proof -
    have "70 \<le> listing_report (length ?ls) k \<and> listing_report (length ?ls) k \<le> 90"
      if "k \<in> set [1..<1 + ?n]" for k
    proof -
      from that have "k < 1 + ?n" by (simp only: set_upt atLeastLessThan_iff)
      then have "k \<le> ?n" by arith
      also have "?n \<le> length ?ls"
        using process_listings_reported
                [of w "sj_jobId data" ?c "length ?ls" ?ls "after_discovery w data st"]
        by (simp add: after_listings_def after_discovery_frame)
      finally show ?thesis by (rule listing_report_band)
    qed
    then show ?thesis unfolding enrich_def by (simp only: set_map) blast
  qed
  have "sorted [1..<1 + ?n]" by (rule sorted_upt)
  then have enrich_sorted: "sorted enrich"
    unfolding enrich_def by (rule sorted_map_mono [rotated]) (rule listing_report_mono)
  have tail: "sorted tail \<and> (\<forall>x \<in> set tail. 90 \<le> x \<and> x \<le> 100)"
    by (simp add: tail_def)
  from True have rep: "reported (snd (process w data st)) = 10 # disc @ enrich @ tail"
    unfolding disc_def enrich_def tail_def by (intro reported_started) simp_all
  have "sorted (10 # disc @ enrich @ tail)"
    using disc_band disc_sorted enrich_band enrich_sorted tail
    by (fastforce simp: sorted_append)
  moreover have "\<forall>x \<in> set (10 # disc @ enrich @ tail). 10 \<le> x \<and> x \<le> 100"
    using disc_band enrich_band tail by fastforce
  ultimately show ?thesis unfolding rep by blast
qed

lemma ceiling_five_halves: "nat \<lceil>5 / 2 :: real\<rceil> = 3"
proof -
  have "\<lceil>5 / 2 :: real\<rceil> = 3" by (rule ceiling_unique) simp_all
  then show ?thesis by simp
qed

text \<open>
  The run of C6 in any world of the kind of the examples, whatever its runtime does with
  text that is not ASCII.
\<close>

lemma progress_trace_any_world:
  assumes w: "launch_error w = None" "login_ok w" "sheets w = Sheets_ok"
      "fetch_page w = endless_pages [card_of (js ''Accountant'') (js ''Acme Bank'') (js ''u1'')]"
      "hiring_team w (js ''u1'') = None" "job_description w (js ''u1'') = []"
      "lowers_ascii (toLowerCase w)"
    and d: "d = job_data (js ''job-1'') (criteria_of None (Some (5 / 2)))"
    and st: "st = store_of [job_row (js ''job-1'') Pending (criteria_of None (Some (5 / 2)))]"
  shows "reported (snd (process w d st)) = [10, 34, 58, 82, 230 / 3, 250 / 3, 90, 90, 100]"
proof -
  define l where "l = listing_of_card (card_of (js ''Accountant'') (js ''Acme Bank'') (js ''u1''))"
  define r2 where "r2 = after_discovery w d st"
  have c: "sj_searchCriteria d = criteria_of None (Some (5 / 2))"
    and jid: "sj_jobId d = js ''job-1''"
    by (simp_all add: d job_data_def)
  have mp: "effectiveMaxPages (criteria_of None (Some (5 / 2))) = 5 / 2"
    by (simp add: effectiveMaxPages_def criteria_of_def)
  have upt: "[0..<nat \<lceil>5 / 2 :: real\<rceil>] = [0, 1, 2]"
    unfolding ceiling_five_halves by (simp add: upt_conv_Cons)
  have pages: "pages_requested (fetch_page w) [0, 1, 2] = [0, 1, 2]"
    by (simp add: w(4) endless_pages_def)
  have read: "pages_read (fetch_page w) (5 / 2) = [0, 1, 2]"
    unfolding pages_read_def upt pages by (simp add: w(4) endless_pages_def)
  have ls: "discovered w d st = [l, l, l]"
    unfolding discovered_def discover_listings c mp upt pages
    by (simp add: w(4) endless_pages_def l_def)
  have ql: "qualifies w (criteria_of None (Some (5 / 2))) l"
    unfolding l_def using w(7,5,6) by (rule acme_qualifies)
  have "varchar 500 (js ''u1'') \<noteq> None" using varchar_u1 by simp
  from acme_fits [OF w(5) this, of "Some (5 / 2)"]
  have fits: "\<not> skipped w (criteria_of None (Some (5 / 2))) l
       \<and> varchar 255 (company l) \<noteq> None \<and> lead_columns_fit w l"
    unfolding l_def .
  have "find_job (js ''job-1'') st \<noteq> None"
    by (simp add: st find_job_def store_of_def job_row_def)
  then have job: "find_job (js ''job-1'') (db r2) \<noteq> None"
    by (simp add: r2_def after_discovery_frame)
  have r3: "after_listings w d st
            = process_listings w (js ''job-1'') (criteria_of None (Some (5 / 2)))
                (length [l, l, l]) [l, l, l] r2"
    by (simp only: after_listings_def ls c jid r2_def)
  from fits have all: "\<forall>x \<in> set [l, l, l].
          \<not> skipped w (criteria_of None (Some (5 / 2))) x
          \<and> varchar 255 (company x) \<noteq> None \<and> lead_columns_fit w x"
    by simp
  from process_listings_sure [OF job all, of "length [l, l, l]"] ql
  have pc: "processedCount (after_listings w d st) = 3"
    and vl: "length (validLeads (after_listings w d st)) = 3"
    unfolding r3 by (simp_all add: r2_def after_discovery_frame)
  from vl have ne: "validLeads (after_listings w d st) \<noteq> []" by auto
  have reports: "map (page_report (5 / 2)) [0, 1, 2] = [34, 58, 82]"
    by (simp add: page_report_def Math_round_def)
  have steps: "map (listing_report 3) [1, 2, 3] = [230 / 3, 250 / 3, 90]"
    by (simp add: listing_report_def)
  have len: "length [l, l, l] = 3" by simp
  have idx: "[1..<1 + 3] = [1, 2, 3 :: nat]" by (simp add: upt_conv_Cons)
  have "reported (snd (process w d st))
        = 10 # map (page_report (5 / 2)) [0, 1, 2] @ map (listing_report 3) [1, 2, 3]
          @ (if validLeads (after_listings w d st) = [] then [] else [90])
          @ [100]"
    using reported_completed [OF w(1-3), of d st] by (simp only: c mp read ls pc len idx)
  then show ?thesis unfolding reports steps using ne by simp
qed

text \<open>
  C6, evaluated where the code departs from it. The submission schema admits
  \<open>maxPages = 2.5\<close>. The loop then reads three pages, and the callback reports
  10 + 0.6 * round (100 * 3 / 2.5) = 82 after the third, above the band 10..70 of the
  discovery; the first processed listing of three then reports 70 + 20 / 3, which is
  less. The progress values passed to the queue over this completed run are not sorted.
\<close>

theorem progress_decreases_for_fractional_maxPages:
  "z_number_min1_max20_optional (Some (JNumber (5 / 2))) = Some (Some (5 / 2))
   \<and> reported (snd (process
        (world_of (endless_pages [card_of (js ''Accountant'') (js ''Acme Bank'') (js ''u1'')]) no_team)
        (job_data (js ''job-1'') (criteria_of None (Some (5 / 2))))
        (store_of [job_row (js ''job-1'') Pending (criteria_of None (Some (5 / 2)))])))
     = [10, 34, 58, 82, 230 / 3, 250 / 3, 90, 90, 100]
   \<and> \<not> sorted (reported (snd (process
        (world_of (endless_pages [card_of (js ''Accountant'') (js ''Acme Bank'') (js ''u1'')]) no_team)
        (job_data (js ''job-1'') (criteria_of None (Some (5 / 2))))
        (store_of [job_row (js ''job-1'') Pending (criteria_of None (Some (5 / 2)))]))))"
proof -
  have rep: "reported (snd (process
        (world_of (endless_pages [card_of (js ''Accountant'') (js ''Acme Bank'') (js ''u1'')]) no_team)
        (job_data (js ''job-1'') (criteria_of None (Some (5 / 2))))
        (store_of [job_row (js ''job-1'') Pending (criteria_of None (Some (5 / 2)))])))
     = [10, 34, 58, 82, 230 / 3, 250 / 3, 90, 90, 100]"
    by (rule progress_trace_any_world [OF _ _ _ _ _ _ _ refl refl])
       (simp_all add: world_of_fields no_team_def lowers_ascii_example)
  have "\<not> sorted [10, 34, 58, 82, 230 / 3, 250 / 3, 90, 90, 100 :: real]"
    by simp
  with rep show ?thesis by simp
qed

end
